theory Spec2Isabelle
  imports Complex_Main "HOL-Library.Word" "HOL-Library.Signed_Division"
begin

unbundle bit_operations_syntax

section \<open>The agent of ssh.go\<close>

text \<open>
  A shallow embedding of \<^verbatim>\<open>ssh.go\<close> (the version whose methods take a
  \<^verbatim>\<open>context.Context\<close>): the \<^verbatim>\<open>Agent\<close> struct, \<^verbatim>\<open>Connect\<close>,
  \<^verbatim>\<open>getBackoffDuration\<close>, \<^verbatim>\<open>RunProgram\<close>, \<^verbatim>\<open>RunTTYProgram\<close>,
  \<^verbatim>\<open>RunStandardProgram\<close>, \<^verbatim>\<open>getCommand\<close>, \<^verbatim>\<open>getSleepDuration\<close> and
  \<^verbatim>\<open>Close\<close>.

  Go's \<^verbatim>\<open>int\<close> is taken at its width on 64-bit targets and \<^verbatim>\<open>time.Duration\<close> is
  an \<^verbatim>\<open>int64\<close> count of nanoseconds, so both are \<open>64 word\<close>: \<open>+\<close> and \<open>*\<close> wrap
  as Go's do, \<open>sint\<close> reads the signed value and \<open><s\<close> is the signed comparison.
  An instant (\<^verbatim>\<open>time.Time\<close>) is an unbounded \<open>int\<close> of nanoseconds.
\<close>

type_synonym int64 = "64 word"
type_synonym duration = "64 word"
type_synonym instant = int
type_synonym conn = nat

text \<open>
  A run-time panic ends the goroutine; it is a result of its own kind, next to the
  \<^verbatim>\<open>error\<close> values the methods return.
\<close>

datatype panic = NegativeShift | IndexOutOfRange | DivideByZero | NilDereference

datatype error =
    ContextCanceled
  | ConnectionIsNil
  | SshError string
  | Panic panic

record Agent =
  Host :: string
  Port :: int64
  Username :: string
  Password :: string
  PrivateKeyPath :: string
  UseTTY :: bool
  Connection :: "conn option"
  ConnectionDelay :: int64
  ConnectionTTL :: int64
  ConnectionStart :: instant
  CommandRate :: int64
  CommandScript :: "string list"
  MaxRetries :: int64

definition Second :: duration where
  "Second = 1000000000"

subsection \<open>The pure helpers\<close>

text \<open>
  \<^verbatim>\<open>backoff := time.Duration(1<<attempt) * time.Second\<close>, capped at
  \<^verbatim>\<open>16*time.Second\<close>. The constant \<^verbatim>\<open>1\<close> takes the type of the conversion, so
  the shift is an \<^verbatim>\<open>int64\<close> shift: a negative count panics, a count of 64 or more
  gives 0, and the product with \<^verbatim>\<open>time.Second\<close> wraps. The receiver is not used.
\<close>

definition getBackoffDuration :: "int64 \<Rightarrow> error + duration" where
  "getBackoffDuration attempt =
     (if attempt <s 0 then Inl (Panic NegativeShift)
      else let backoff = push_bit (unat attempt) 1 * Second
           in Inr (if 16 * Second <s backoff then 16 * Second else backoff))"

definition defaultCommand :: string where
  "defaultCommand = ''echo '' @ [CHR 0x27] @ ''Hello, world!'' @ [CHR 0x27]"

text \<open>
  \<^verbatim>\<open>getCommand\<close>: the only check before \<^verbatim>\<open>a.CommandScript[idx]\<close> is
  \<^verbatim>\<open>idx >= len(a.CommandScript)\<close>; Go panics on a negative index.
\<close>

definition getCommand :: "Agent \<Rightarrow> int64 \<Rightarrow> error + string" where
  "getCommand a idx =
     (if 0 < length (CommandScript a) then
        if int (length (CommandScript a)) \<le> sint idx then Inr []
        else if sint idx < 0 then Inl (Panic IndexOutOfRange)
        else Inr (CommandScript a ! nat (sint idx))
      else Inr defaultCommand)"

text \<open>
  Go's integer division truncates towards zero and panics on a zero divisor.
\<close>

definition goDiv :: "int64 \<Rightarrow> int64 \<Rightarrow> error + int64" where
  "goDiv x y =
     (if y = 0 then Inl (Panic DivideByZero)
      else Inr (word_of_int (sint x sdiv sint y)))"

definition getSleepDuration :: "Agent \<Rightarrow> error + duration" where
  "getSleepDuration a =
     (case goDiv 60 (CommandRate a) of
        Inl p \<Rightarrow> Inl p
      | Inr q \<Rightarrow> Inr (q * Second))"

subsection \<open>The world an agent runs in\<close>

text \<open>
  Everything outside the agent is an environment: the instant at which the context is
  cancelled (if ever), the outcome of every call into the ssh library (how long it takes
  and whether it fails, by the position of the call in the run), and which case a
  \<^verbatim>\<open>select\<close> takes when its timer and \<^verbatim>\<open>ctx.Done()\<close> are ready at the same
  instant (Go picks one at random). The run itself carries a clock and the trace of the
  calls and waits made so far. Logging is not modelled, and neither are the two
  goroutines that drain the interactive session's output.
\<close>

datatype wait_kind = PreConnectDelay | RetryBackoff | ShellWarmup | CadenceSleep

datatype call =
    Dial string int64
  | NewSession conn
  | RequestPty
  | Output string
  | StdinPipe
  | StdoutPipe
  | StderrPipe
  | Shell
  | StdinWrite string
  | SessionClose
  | ConnClose conn

datatype event = EvCall instant call | EvWait instant wait_kind duration

record env =
  cancelAt :: "instant option"
  outcome :: "nat \<Rightarrow> call \<Rightarrow> nat \<times> string option"
  timerWins :: "instant \<Rightarrow> bool"

record rt =
  now :: instant
  trace :: "event list"

definition ctxDone :: "env \<Rightarrow> instant \<Rightarrow> bool" where
  "ctxDone env t = (case cancelAt env of None \<Rightarrow> False | Some c \<Rightarrow> c \<le> t)"

definition extcall :: "env \<Rightarrow> call \<Rightarrow> rt \<Rightarrow> string option \<times> rt" where
  "extcall env c s =
     (case outcome env (length (trace s)) c of
        (d, r) \<Rightarrow> (r, \<lparr>now = now s + int d, trace = trace s @ [EvCall (now s) c]\<rparr>))"

datatype woke = TimerFired | CtxDone

text \<open>
  \<^verbatim>\<open>select { case <-time.After(d): ... case <-ctx.Done(): ... }\<close>: the timer is
  ready at \<open>now + max 0 d\<close>, the context at the later of \<open>now\<close> and the cancellation.
\<close>

definition selectAfter :: "env \<Rightarrow> wait_kind \<Rightarrow> duration \<Rightarrow> rt \<Rightarrow> woke \<times> rt" where
  "selectAfter env k d s =
     (let tt = now s + max 0 (sint d);
          tr = trace s @ [EvWait (now s) k d]
      in case cancelAt env of
           None \<Rightarrow> (TimerFired, \<lparr>now = tt, trace = tr\<rparr>)
         | Some c \<Rightarrow>
             (let tc = max (now s) c
              in if tc < tt \<or> (tc = tt \<and> \<not> timerWins env tt)
                 then (CtxDone, \<lparr>now = tc, trace = tr\<rparr>)
                 else (TimerFired, \<lparr>now = tt, trace = tr\<rparr>)))"

subsection \<open>Close\<close>

definition Close :: "env \<Rightarrow> Agent \<Rightarrow> rt \<Rightarrow> Agent \<times> rt" where
  "Close env a s =
     (case Connection a of
        None \<Rightarrow> (a, s)
      | Some c \<Rightarrow> (a\<lparr>Connection := None\<rparr>, snd (extcall env (ConnClose c) s)))"

subsection \<open>Connect\<close>

text \<open>
  The retry loop of \<^verbatim>\<open>Connect\<close>,
  \<^verbatim>\<open>for attempt := 0; attempt < maxAttempts; attempt++ { ... }\<close>, with
  \<^verbatim>\<open>lastErr\<close> carried along: the check of \<^verbatim>\<open>ctx.Done()\<close> before each attempt,
  \<^verbatim>\<open>ssh.Dial\<close>, the two assignments and \<^verbatim>\<open>return nil\<close> when it succeeds, and
  otherwise, when \<^verbatim>\<open>attempt < maxAttempts-1\<close>, the backoff wait, which returns
  \<^verbatim>\<open>ctx.Err()\<close> when the context is cancelled first. After the loop comes
  \<^verbatim>\<open>return lastErr\<close>. A connection is named by the position of its dial in the
  trace. The loop ends because \<open>attempt\<close> climbs towards \<open>maxAttempts\<close>.
\<close>

function connectLoop ::
  "env \<Rightarrow> Agent \<Rightarrow> int64 \<Rightarrow> int64 \<Rightarrow> error option \<Rightarrow> rt \<Rightarrow> error option \<times> Agent \<times> rt" where
  "connectLoop env a maxAttempts attempt lastErr s =
     (if attempt <s maxAttempts then
        if ctxDone env (now s) then (Some ContextCanceled, a, s)
        else
          (case extcall env (Dial (Host a) (Port a)) s of
             (None, s1) \<Rightarrow>
               (None, a\<lparr>ConnectionStart := now s1, Connection := Some (length (trace s))\<rparr>, s1)
           | (Some msg, s1) \<Rightarrow>
               if attempt <s maxAttempts - 1 then
                 (case getBackoffDuration attempt of
                    Inl p \<Rightarrow> (Some p, a, s1)
                  | Inr backoff \<Rightarrow>
                      (case selectAfter env RetryBackoff backoff s1 of
                         (CtxDone, s2) \<Rightarrow> (Some ContextCanceled, a, s2)
                       | (TimerFired, s2) \<Rightarrow>
                           connectLoop env a maxAttempts (attempt + 1) (Some (SshError msg)) s2))
               else connectLoop env a maxAttempts (attempt + 1) (Some (SshError msg)) s1)
      else (lastErr, a, s))"
  by pat_completeness auto
termination
proof -
  have step: "sint k < sint (k + 1)" if "sint k < sint m" for k m :: int64
  proof -
    have "sint m < 2 ^ 63" using sint_lt [of m] by simp
    moreover have "- (2 ^ 63) \<le> sint k" using sint_ge [of k] by simp
    ultimately have "sint k + 1 < 2 ^ 63" "- (2 ^ 63) \<le> sint k + 1" using that by simp_all
    then have "signed_take_bit 63 (sint k + 1) = sint k + 1"
      by (simp add: signed_take_bit_int_eq_self)
    then show ?thesis by (simp add: sint_word_ariths)
  qed
  show ?thesis
    apply (relation "measure (\<lambda>(env, a, m, k, e, s). nat (sint m - sint k))")
      apply simp
     apply (auto simp: word_sless_alt)
     apply (erule step)+
    done
qed

declare connectLoop.simps [simp del]

text \<open>
  \<^verbatim>\<open>Connect\<close>: nothing to do when a connection is held; the delay before the first
  attempt when \<^verbatim>\<open>a.ConnectionDelay > 0\<close>; then the loop, with
  \<^verbatim>\<open>maxAttempts := a.MaxRetries + 1\<close>.
\<close>

definition Connect :: "env \<Rightarrow> Agent \<Rightarrow> rt \<Rightarrow> error option \<times> Agent \<times> rt" where
  "Connect env a s =
     (if Connection a \<noteq> None then (None, a, s)
      else
        (case (if 0 <s ConnectionDelay a
               then selectAfter env PreConnectDelay (ConnectionDelay a * Second) s
               else (TimerFired, s)) of
           (CtxDone, s1) \<Rightarrow> (Some ContextCanceled, a, s1)
         | (TimerFired, s1) \<Rightarrow> connectLoop env a (MaxRetries a + 1) 0 None s1))"

subsection \<open>The command loops\<close>

text \<open>
  \<^verbatim>\<open>a.ConnectionStart.Add(time.Duration(a.ConnectionTTL) * time.Second).Before(time.Now())\<close>
\<close>

definition ttlReached :: "Agent \<Rightarrow> instant \<Rightarrow> bool" where
  "ttlReached a t = (ConnectionStart a + sint (ConnectionTTL a * Second) < t)"

text \<open>
  Both loops end a cycle with the same statement,
  \<^verbatim>\<open>select { case <-time.After(a.getSleepDuration()): case <-ctx.Done(): return nil }\<close>;
  \<open>Inl\<close> is the return out of the method, \<open>Inr\<close> the run going on to
  \<^verbatim>\<open>idx++\<close>.
\<close>

definition cadenceWait :: "env \<Rightarrow> Agent \<Rightarrow> rt \<Rightarrow> (error option \<times> Agent \<times> rt) + rt" where
  "cadenceWait env a s =
     (case getSleepDuration a of
        Inl p \<Rightarrow> Inl (Some p, a, s)
      | Inr d \<Rightarrow>
          (case selectAfter env CadenceSleep d s of
             (CtxDone, s') \<Rightarrow> Inl (None, a, s')
           | (TimerFired, s') \<Rightarrow> Inr s'))"

text \<open>
  The two \<^verbatim>\<open>for { ... }\<close> loops have no bound of their own, so each takes fuel, one
  unit per cycle; \<open>None\<close> is a loop still running when the fuel is spent.
\<close>

fun standardLoop ::
  "nat \<Rightarrow> env \<Rightarrow> Agent \<Rightarrow> int64 \<Rightarrow> rt \<Rightarrow> (error option \<times> Agent \<times> rt) option" where
  "standardLoop 0 env a idx s = None"
| "standardLoop (Suc n) env a idx s =
     (if ctxDone env (now s) then Some (None, a, s)
      else if ttlReached a (now s) then Some (None, a, s)
      else
        (case getCommand a idx of
           Inl p \<Rightarrow> Some (Some p, a, s)
         | Inr command \<Rightarrow>
             (case Connection a of
                None \<Rightarrow> Some (Some (Panic NilDereference), a, s)
              | Some c \<Rightarrow>
                  (case extcall env (NewSession c) s of
                     (Some msg, s1) \<Rightarrow> Some (Some (SshError msg), a, s1)
                   | (None, s1) \<Rightarrow>
                       (case extcall env RequestPty s1 of
                          (Some msg, s2) \<Rightarrow>
                            (case Close env a (snd (extcall env SessionClose s2)) of
                               (a', s3) \<Rightarrow> Some (Some (SshError msg), a', s3))
                        | (None, s2) \<Rightarrow>
                            (case extcall env (Output command) s2 of
                               (Some msg, s3) \<Rightarrow>
                                 (case Close env a (snd (extcall env SessionClose s3)) of
                                    (a', s4) \<Rightarrow> Some (Some (SshError msg), a', s4))
                             | (None, s3) \<Rightarrow>
                                 (case cadenceWait env a (snd (extcall env SessionClose s3)) of
                                    Inl res \<Rightarrow> Some res
                                  | Inr s4 \<Rightarrow> standardLoop n env a (idx + 1) s4)))))))"

text \<open>
  \<^verbatim>\<open>RunStandardProgram\<close> and \<^verbatim>\<open>RunTTYProgram\<close> both start with
  \<^verbatim>\<open>if a.Connection == nil { return fmt.Errorf("Connection is nil") }\<close>.
\<close>

definition RunStandardProgram ::
  "nat \<Rightarrow> env \<Rightarrow> Agent \<Rightarrow> rt \<Rightarrow> (error option \<times> Agent \<times> rt) option" where
  "RunStandardProgram n env a s =
     (if Connection a = None then Some (Some ConnectionIsNil, a, s)
      else standardLoop n env a 0 s)"

fun ttyLoop ::
  "nat \<Rightarrow> env \<Rightarrow> Agent \<Rightarrow> int64 \<Rightarrow> rt \<Rightarrow> (error option \<times> Agent \<times> rt) option" where
  "ttyLoop 0 env a idx s = None"
| "ttyLoop (Suc n) env a idx s =
     (if ctxDone env (now s) then Some (None, a, s)
      else if ttlReached a (now s) then Some (None, a, s)
      else
        (case getCommand a idx of
           Inl p \<Rightarrow> Some (Some p, a, s)
         | Inr command \<Rightarrow>
             (case extcall env (StdinWrite (command @ [CHR 0x0D])) s of
                (Some msg, s1) \<Rightarrow> Some (Some (SshError msg), a, s1)
              | (None, s1) \<Rightarrow>
                  (case cadenceWait env a s1 of
                     Inl res \<Rightarrow> Some res
                   | Inr s2 \<Rightarrow> ttyLoop n env a (idx + 1) s2))))"

text \<open>
  The setup of the interactive session: each step that fails closes the agent and
  returns the error; the ten-second wait for the shell returns \<^verbatim>\<open>ctx.Err()\<close> when
  the context is cancelled first.
\<close>

fun ttySetup :: "env \<Rightarrow> Agent \<Rightarrow> call list \<Rightarrow> rt \<Rightarrow> (error \<times> Agent \<times> rt) + rt" where
  "ttySetup env a [] s = Inr s"
| "ttySetup env a (c # cs) s =
     (case extcall env c s of
        (Some msg, s1) \<Rightarrow> (case Close env a s1 of (a', s2) \<Rightarrow> Inl (SshError msg, a', s2))
      | (None, s1) \<Rightarrow> ttySetup env a cs s1)"

definition ttySession ::
  "nat \<Rightarrow> env \<Rightarrow> Agent \<Rightarrow> rt \<Rightarrow> (error option \<times> Agent \<times> rt) option" where
  "ttySession n env a s =
     (case ttySetup env a [RequestPty, StdinPipe, StdoutPipe, StderrPipe, Shell] s of
        Inl (e, a', s1) \<Rightarrow> Some (Some e, a', s1)
      | Inr s1 \<Rightarrow>
          (case selectAfter env ShellWarmup (10 * Second) s1 of
             (CtxDone, s2) \<Rightarrow> Some (Some ContextCanceled, a, s2)
           | (TimerFired, s2) \<Rightarrow> ttyLoop n env a 0 s2))"

text \<open>
  \<^verbatim>\<open>defer sess.Close()\<close> runs when the method returns, whatever it returns, once the
  session has been opened.
\<close>

definition RunTTYProgram ::
  "nat \<Rightarrow> env \<Rightarrow> Agent \<Rightarrow> rt \<Rightarrow> (error option \<times> Agent \<times> rt) option" where
  "RunTTYProgram n env a s =
     (case Connection a of
        None \<Rightarrow> Some (Some ConnectionIsNil, a, s)
      | Some c \<Rightarrow>
          (case extcall env (NewSession c) s of
             (Some msg, s1) \<Rightarrow> Some (Some (SshError msg), a, s1)
           | (None, s1) \<Rightarrow>
               (case ttySession n env a s1 of
                  None \<Rightarrow> None
                | Some (r, a', s2) \<Rightarrow> Some (r, a', snd (extcall env SessionClose s2)))))"

definition RunProgram ::
  "nat \<Rightarrow> env \<Rightarrow> Agent \<Rightarrow> rt \<Rightarrow> (error option \<times> Agent \<times> rt) option" where
  "RunProgram n env a s =
     (if UseTTY a then RunTTYProgram n env a s else RunStandardProgram n env a s)"

subsection \<open>Reading a trace\<close>

text \<open>
  What the properties below read off a trace: the dial attempts, the durations of the
  backoff waits in order, whether the run ended on a dial that succeeded, and that one
  state continues another (the clock has not gone back and the trace has grown by
  events that all satisfy \<open>P\<close>).
\<close>

fun isDial :: "event \<Rightarrow> bool" where
  "isDial (EvCall t (Dial h p)) = True"
| "isDial _ = False"

fun backoffOf :: "event \<Rightarrow> duration option" where
  "backoffOf (EvWait t RetryBackoff d) = Some d"
| "backoffOf _ = None"

definition backoffWaits :: "event list \<Rightarrow> duration list" where
  "backoffWaits tr = List.map_filter backoffOf tr"


definition extendsBy :: "(event \<Rightarrow> bool) \<Rightarrow> rt \<Rightarrow> rt \<Rightarrow> bool" where
  "extendsBy P s s' = (now s \<le> now s' \<and> (\<exists>new. trace s' = trace s @ new \<and> list_all P new))"

text \<open>Every call \<^verbatim>\<open>Connect\<close> makes starts while the context is not cancelled.\<close>

fun connectEvent :: "env \<Rightarrow> event \<Rightarrow> bool" where
  "connectEvent env (EvCall t c) = (\<not> ctxDone env t)"
| "connectEvent env (EvWait t k d) = True"

text \<open>
  In a command loop a cycle (a new session, or a write to the shell) starts while the
  context is not cancelled, and every wait is the cadence wait.
\<close>

fun cycleEvent :: "env \<Rightarrow> Agent \<Rightarrow> event \<Rightarrow> bool" where
  "cycleEvent env a (EvCall t (NewSession c)) = (\<not> ctxDone env t)"
| "cycleEvent env a (EvCall t (StdinWrite cmd)) = (\<not> ctxDone env t)"
| "cycleEvent env a (EvCall t c) = True"
| "cycleEvent env a (EvWait t k d) = (k = CadenceSleep \<and> getSleepDuration a = Inr d)"

fun cadenceEvent :: "Agent \<Rightarrow> event \<Rightarrow> bool" where
  "cadenceEvent a (EvWait t CadenceSleep d) = (getSleepDuration a = Inr d)"
| "cadenceEvent a e = True"

subsection \<open>Concrete agents and environments\<close>

definition exampleAgent :: Agent where
  "exampleAgent =
     \<lparr>Host = ''localhost'', Port = 22, Username = ''sshmob'', Password = ''secret'',
      PrivateKeyPath = [], UseTTY = False, Connection = None, ConnectionDelay = 0,
      ConnectionTTL = 60, ConnectionStart = 0, CommandRate = 6,
      CommandScript = [''ls'', ''pwd''], MaxRetries = 0\<rparr>"

definition connectedAgent :: Agent where
  "connectedAgent = exampleAgent\<lparr>Connection := Some 0\<rparr>"

text \<open>A server that takes every call, one that refuses every dial, one that refuses
  every session and one on which every command fails; each call takes a few
  nanoseconds, and the context is never cancelled.\<close>

definition accepting :: env where
  "accepting = \<lparr>cancelAt = None, outcome = (\<lambda>k c. (7, None)), timerWins = (\<lambda>t. True)\<rparr>"

definition refusing :: env where
  "refusing =
     \<lparr>cancelAt = None,
      outcome = (\<lambda>k c. case c of Dial h p \<Rightarrow> (5, Some ''connection refused'') | _ \<Rightarrow> (7, None)),
      timerWins = (\<lambda>t. True)\<rparr>"

definition sessionRefusing :: env where
  "sessionRefusing =
     \<lparr>cancelAt = None,
      outcome = (\<lambda>k c. case c of NewSession h \<Rightarrow> (5, Some ''open failed'') | _ \<Rightarrow> (7, None)),
      timerWins = (\<lambda>t. True)\<rparr>"

definition commandFailing :: env where
  "commandFailing =
     \<lparr>cancelAt = None,
      outcome = (\<lambda>k c. case c of Output cmd \<Rightarrow> (5, Some ''exit status 1'') | _ \<Rightarrow> (7, None)),
      timerWins = (\<lambda>t. True)\<rparr>"

text \<open>The accepting server, with the context cancelled five seconds in.\<close>

definition interrupted :: env where
  "interrupted = accepting\<lparr>cancelAt := Some 5000000000\<rparr>"

definition start :: rt where
  "start = \<lparr>now = 0, trace = []\<rparr>"

section \<open>Basic facts\<close>

subsection \<open>Signed 64-bit arithmetic\<close>

lemma sint_succ:
  fixes k :: int64
  assumes "sint k < 9223372036854775807"
  shows "sint (k + 1) = sint k + 1"
proof -
  have "- (2 ^ 63) \<le> sint k" using sint_ge [of k] by simp
  with assms have "sint k + 1 < 2 ^ 63" "- (2 ^ 63) \<le> sint k + 1" by simp_all
  then have "signed_take_bit 63 (sint k + 1) = sint k + 1"
    by (simp add: signed_take_bit_int_eq_self)
  then show ?thesis by (simp add: sint_word_ariths)
qed

lemma sint_word_of_int_small:
  "- (2 ^ 63) \<le> x \<Longrightarrow> x < 2 ^ 63 \<Longrightarrow> sint (word_of_int x :: int64) = x"
  by (simp add: signed_of_int signed_take_bit_int_eq_self)

lemma sint_eq_unat:
  fixes w :: int64
  assumes "int (unat w) < 2 ^ 63"
  shows "sint w = int (unat w)"
proof -
  have "uint w < 2 ^ 63" using assms by simp
  moreover have "- (2 ^ 63) \<le> uint w" by (rule order_trans [of _ 0]) simp_all
  ultimately have "signed_take_bit 63 (uint w) = uint w"
    by (rule signed_take_bit_int_eq_self [rotated])
  then show ?thesis by (simp add: sint_uint)
qed

lemma unat_succ_le: "int (unat (w + 1 :: int64)) \<le> int (unat w) + 1"
  by (metis of_nat_unat uint_add_le unsigned_1)

subsection \<open>Calls, waits and traces\<close>

lemma extcall_eq:
  "extcall env c s = (r, s1) \<longleftrightarrow>
     r = snd (outcome env (length (trace s)) c) \<and>
     s1 = \<lparr>now = now s + int (fst (outcome env (length (trace s)) c)),
           trace = trace s @ [EvCall (now s) c]\<rparr>"
  by (auto simp: extcall_def case_prod_beta)

lemma snd_extcall:
  "snd (extcall env c s) =
     \<lparr>now = now s + int (fst (outcome env (length (trace s)) c)),
      trace = trace s @ [EvCall (now s) c]\<rparr>"
  by (simp add: extcall_def case_prod_beta)

lemma fst_extcall:
  "fst (extcall env c s) = snd (outcome env (length (trace s)) c)"
  by (simp add: extcall_def case_prod_beta)

lemma extcall_takes_time:
  assumes "\<forall>k c. 1 \<le> fst (outcome env k c)" "extcall env c s = (r, s1)"
  shows "now s + 1 \<le> now s1"
proof -
  have "1 \<le> fst (outcome env (length (trace s)) c)" using assms(1) by blast
  moreover have "now s1 = now s + int (fst (outcome env (length (trace s)) c))"
    using assms(2) by (auto simp: extcall_eq)
  ultimately show ?thesis by simp
qed

lemma selectAfter_never:
  "cancelAt env = None \<Longrightarrow>
     selectAfter env k d s =
       (TimerFired, \<lparr>now = now s + max 0 (sint d), trace = trace s @ [EvWait (now s) k d]\<rparr>)"
  by (simp add: selectAfter_def)

lemma selectAfter_trace:
  "selectAfter env k d s = (w, s1) \<Longrightarrow> trace s1 = trace s @ [EvWait (now s) k d]"
  by (auto simp: selectAfter_def Let_def split: option.splits if_splits)

lemma selectAfter_now:
  "selectAfter env k d s = (w, s1) \<Longrightarrow> now s \<le> now s1"
  by (auto simp: selectAfter_def Let_def split: option.splits if_splits)

lemma selectAfter_cancelled:
  "cancelAt env = Some c \<Longrightarrow> c \<le> now s + max 0 (sint d) \<Longrightarrow>
   selectAfter env k d s = (w, s') \<Longrightarrow> ctxDone env (now s')"
  by (auto simp: selectAfter_def Let_def ctxDone_def split: if_splits)

lemma extendsBy_refl [simp]: "extendsBy P s s"
  by (simp add: extendsBy_def)

lemma extendsBy_trans [trans]:
  "extendsBy P s s1 \<Longrightarrow> extendsBy P s1 s2 \<Longrightarrow> extendsBy P s s2"
  by (auto simp: extendsBy_def)

lemma extendsBy_mono:
  "extendsBy P s s' \<Longrightarrow> (\<And>e. P e \<Longrightarrow> Q e) \<Longrightarrow> extendsBy Q s s'"
  by (auto simp: extendsBy_def list_all_iff)

lemma extendsBy_drop:
  "extendsBy P s s' \<Longrightarrow> list_all P (drop (length (trace s)) (trace s'))"
  by (auto simp: extendsBy_def)

lemma extendsBy_now: "extendsBy P s s' \<Longrightarrow> now s \<le> now s'"
  by (simp add: extendsBy_def)

lemma extendsBy_extcall:
  "extcall env c s = (r, s1) \<Longrightarrow> P (EvCall (now s) c) \<Longrightarrow> extendsBy P s s1"
  by (auto simp: extendsBy_def extcall_eq)

lemma extendsBy_snd_extcall:
  "P (EvCall (now s) c) \<Longrightarrow> extendsBy P s (snd (extcall env c s))"
  by (auto simp: extendsBy_def snd_extcall)

lemma extendsBy_selectAfter:
  "selectAfter env k d s = (w, s1) \<Longrightarrow> P (EvWait (now s) k d) \<Longrightarrow> extendsBy P s s1"
  by (auto simp: extendsBy_def dest: selectAfter_trace selectAfter_now)

lemma extendsBy_Close:
  "Close env a s = (a', s') \<Longrightarrow> (\<And>t c. P (EvCall t (ConnClose c))) \<Longrightarrow> extendsBy P s s'"
  by (auto simp: Close_def extendsBy_def snd_extcall split: option.splits)

lemma extendsBy_cadenceWait_Inr:
  "cadenceWait env a s = Inr s' \<Longrightarrow>
   (\<And>t d. getSleepDuration a = Inr d \<Longrightarrow> P (EvWait t CadenceSleep d)) \<Longrightarrow> extendsBy P s s'"
  by (auto simp: cadenceWait_def split: sum.splits prod.splits woke.splits
      intro: extendsBy_selectAfter)

lemma extendsBy_cadenceWait_Inl:
  "cadenceWait env a s = Inl (r, a', s') \<Longrightarrow>
   (\<And>t d. getSleepDuration a = Inr d \<Longrightarrow> P (EvWait t CadenceSleep d)) \<Longrightarrow> extendsBy P s s'"
  by (auto simp: cadenceWait_def split: sum.splits prod.splits woke.splits
      intro: extendsBy_selectAfter)

lemma cycleEvent_cadenceEvent: "cycleEvent env a e \<Longrightarrow> cadenceEvent a e"
  by (cases "(a, e)" rule: cadenceEvent.cases) auto

lemma cadenceEvent_call [simp]: "cadenceEvent a (EvCall t c)"
  by simp

subsection \<open>Case analysis of the loops\<close>

text \<open>
  One rule per loop: a property holds of every run once it holds of each way a cycle
  can end, given it for the rest of the run where the cycle goes on to the next.
\<close>

lemma connectLoop_rule [consumes 1, case_names exhausted cancelled connected panicked interrupted retried final]:
  assumes run: "connectLoop env a m k e s = res"
    and exhausted: "\<And>k e s. \<not> k <s m \<Longrightarrow> P k e s (e, a, s)"
    and cancelled: "\<And>k e s. k <s m \<Longrightarrow> ctxDone env (now s) \<Longrightarrow> P k e s (Some ContextCanceled, a, s)"
    and connected: "\<And>k e s s1. k <s m \<Longrightarrow> \<not> ctxDone env (now s) \<Longrightarrow>
        extcall env (Dial (Host a) (Port a)) s = (None, s1) \<Longrightarrow>
        P k e s (None, a\<lparr>ConnectionStart := now s1, Connection := Some (length (trace s))\<rparr>, s1)"
    and panicked: "\<And>k e s msg s1 p. k <s m \<Longrightarrow> \<not> ctxDone env (now s) \<Longrightarrow>
        extcall env (Dial (Host a) (Port a)) s = (Some msg, s1) \<Longrightarrow> k <s m - 1 \<Longrightarrow>
        getBackoffDuration k = Inl p \<Longrightarrow> P k e s (Some p, a, s1)"
    and interrupted: "\<And>k e s msg s1 b s2. k <s m \<Longrightarrow> \<not> ctxDone env (now s) \<Longrightarrow>
        extcall env (Dial (Host a) (Port a)) s = (Some msg, s1) \<Longrightarrow> k <s m - 1 \<Longrightarrow>
        getBackoffDuration k = Inr b \<Longrightarrow> selectAfter env RetryBackoff b s1 = (CtxDone, s2) \<Longrightarrow>
        P k e s (Some ContextCanceled, a, s2)"
    and retried: "\<And>k e s msg s1 b s2 res. k <s m \<Longrightarrow> \<not> ctxDone env (now s) \<Longrightarrow>
        extcall env (Dial (Host a) (Port a)) s = (Some msg, s1) \<Longrightarrow> k <s m - 1 \<Longrightarrow>
        getBackoffDuration k = Inr b \<Longrightarrow> selectAfter env RetryBackoff b s1 = (TimerFired, s2) \<Longrightarrow>
        connectLoop env a m (k + 1) (Some (SshError msg)) s2 = res \<Longrightarrow>
        P (k + 1) (Some (SshError msg)) s2 res \<Longrightarrow> P k e s res"
    and final: "\<And>k e s msg s1 res. k <s m \<Longrightarrow> \<not> ctxDone env (now s) \<Longrightarrow>
        extcall env (Dial (Host a) (Port a)) s = (Some msg, s1) \<Longrightarrow> \<not> k <s m - 1 \<Longrightarrow>
        connectLoop env a m (k + 1) (Some (SshError msg)) s1 = res \<Longrightarrow>
        P (k + 1) (Some (SshError msg)) s1 res \<Longrightarrow> P k e s res"
  shows "P k e s res"
proof -
  have "env' = env \<longrightarrow> a' = a \<longrightarrow> m' = m \<longrightarrow> P k e s (connectLoop env a m k e s)" for env' a' m'
  proof (induction env' a' m' k e s rule: connectLoop.induct)
    case (1 env' a' m' k e s)
    show ?case
    proof (intro impI)
      assume eqs: "env' = env" "a' = a" "m' = m"
      note IH = "1.IH" [unfolded eqs]
      let ?dial = "Dial (Host a) (Port a)"
      show "P k e s (connectLoop env a m k e s)"
      proof (cases "k <s m")
        case False
        then have "connectLoop env a m k e s = (e, a, s)" by (subst connectLoop.simps) simp
        then show ?thesis using exhausted [OF False] by simp
      next
        case lt: True
        show ?thesis
        proof (cases "ctxDone env (now s)")
          case True
          then have "connectLoop env a m k e s = (Some ContextCanceled, a, s)"
            using lt by (subst connectLoop.simps) simp
          then show ?thesis using cancelled [OF lt True] by simp
        next
          case nd: False
          obtain r s1 where ec: "extcall env ?dial s = (r, s1)" by force
          show ?thesis
          proof (cases r)
            case None
            then have "connectLoop env a m k e s =
                (None, a\<lparr>ConnectionStart := now s1, Connection := Some (length (trace s))\<rparr>, s1)"
              using lt nd ec by (subst connectLoop.simps) simp
            then show ?thesis using connected [OF lt nd ec [unfolded None]] by simp
          next
            case (Some msg)
            note ec' = ec [unfolded Some]
            show ?thesis
            proof (cases "k <s m - 1")
              case False
              have step: "connectLoop env a m k e s = connectLoop env a m (k + 1) (Some (SshError msg)) s1"
                using lt nd ec' False by (subst connectLoop.simps) simp
              have "P (k + 1) (Some (SshError msg)) s1 (connectLoop env a m (k + 1) (Some (SshError msg)) s1)"
                using IH(2) [OF lt nd ec [symmetric] Some False] by simp
              then show ?thesis
                unfolding step by (rule final [OF lt nd ec' False refl])
            next
              case more: True
              show ?thesis
              proof (cases "getBackoffDuration k")
                case (Inl p)
                then have "connectLoop env a m k e s = (Some p, a, s1)"
                  using lt nd ec' more by (subst connectLoop.simps) simp
                then show ?thesis using panicked [OF lt nd ec' more Inl] by simp
              next
                case (Inr b)
                obtain w s2 where sel: "selectAfter env RetryBackoff b s1 = (w, s2)" by force
                show ?thesis
                proof (cases w)
                  case CtxDone
                  then have "connectLoop env a m k e s = (Some ContextCanceled, a, s2)"
                    using lt nd ec' more Inr sel by (subst connectLoop.simps) simp
                  then show ?thesis
                    using interrupted [OF lt nd ec' more Inr sel [unfolded CtxDone]] by simp
                next
                  case TimerFired
                  have step: "connectLoop env a m k e s = connectLoop env a m (k + 1) (Some (SshError msg)) s2"
                    using lt nd ec' more Inr sel TimerFired by (subst connectLoop.simps) simp
                  have "P (k + 1) (Some (SshError msg)) s2 (connectLoop env a m (k + 1) (Some (SshError msg)) s2)"
                    using IH(1) [OF lt nd ec [symmetric] Some more Inr sel [symmetric] TimerFired] by simp
                  then show ?thesis
                    unfolding step
                    by (rule retried [OF lt nd ec' more Inr sel [unfolded TimerFired] refl])
                qed
              qed
            qed
          qed
        qed
      qed
    qed
  qed
  then show ?thesis using run by blast
qed

lemma standardLoop_rule [consumes 1, case_names cancelled expired panicked nilconn open_failed pty_failed run_failed returned continued]:
  assumes run: "standardLoop n env a idx s = Some res"
    and cancelled: "\<And>n idx s. ctxDone env (now s) \<Longrightarrow> P (Suc n) idx s (None, a, s)"
    and expired: "\<And>n idx s. \<not> ctxDone env (now s) \<Longrightarrow> ttlReached a (now s) \<Longrightarrow> P (Suc n) idx s (None, a, s)"
    and panicked: "\<And>n idx s p. \<not> ctxDone env (now s) \<Longrightarrow> \<not> ttlReached a (now s) \<Longrightarrow>
        getCommand a idx = Inl p \<Longrightarrow> P (Suc n) idx s (Some p, a, s)"
    and nilconn: "\<And>n idx s cmd. \<not> ctxDone env (now s) \<Longrightarrow> \<not> ttlReached a (now s) \<Longrightarrow>
        getCommand a idx = Inr cmd \<Longrightarrow> Connection a = None \<Longrightarrow>
        P (Suc n) idx s (Some (Panic NilDereference), a, s)"
    and open_failed: "\<And>n idx s cmd c msg s1. \<not> ctxDone env (now s) \<Longrightarrow> \<not> ttlReached a (now s) \<Longrightarrow>
        getCommand a idx = Inr cmd \<Longrightarrow> Connection a = Some c \<Longrightarrow>
        extcall env (NewSession c) s = (Some msg, s1) \<Longrightarrow>
        P (Suc n) idx s (Some (SshError msg), a, s1)"
    and pty_failed: "\<And>n idx s cmd c s1 msg s2 a' s3. \<not> ctxDone env (now s) \<Longrightarrow> \<not> ttlReached a (now s) \<Longrightarrow>
        getCommand a idx = Inr cmd \<Longrightarrow> Connection a = Some c \<Longrightarrow>
        extcall env (NewSession c) s = (None, s1) \<Longrightarrow>
        extcall env RequestPty s1 = (Some msg, s2) \<Longrightarrow>
        Close env a (snd (extcall env SessionClose s2)) = (a', s3) \<Longrightarrow>
        P (Suc n) idx s (Some (SshError msg), a', s3)"
    and run_failed: "\<And>n idx s cmd c s1 s2 msg s3 a' s4. \<not> ctxDone env (now s) \<Longrightarrow> \<not> ttlReached a (now s) \<Longrightarrow>
        getCommand a idx = Inr cmd \<Longrightarrow> Connection a = Some c \<Longrightarrow>
        extcall env (NewSession c) s = (None, s1) \<Longrightarrow>
        extcall env RequestPty s1 = (None, s2) \<Longrightarrow>
        extcall env (Output cmd) s2 = (Some msg, s3) \<Longrightarrow>
        Close env a (snd (extcall env SessionClose s3)) = (a', s4) \<Longrightarrow>
        P (Suc n) idx s (Some (SshError msg), a', s4)"
    and returned: "\<And>n idx s cmd c s1 s2 s3 res. \<not> ctxDone env (now s) \<Longrightarrow> \<not> ttlReached a (now s) \<Longrightarrow>
        getCommand a idx = Inr cmd \<Longrightarrow> Connection a = Some c \<Longrightarrow>
        extcall env (NewSession c) s = (None, s1) \<Longrightarrow>
        extcall env RequestPty s1 = (None, s2) \<Longrightarrow>
        extcall env (Output cmd) s2 = (None, s3) \<Longrightarrow>
        cadenceWait env a (snd (extcall env SessionClose s3)) = Inl res \<Longrightarrow>
        P (Suc n) idx s res"
    and continued: "\<And>n idx s cmd c s1 s2 s3 s4 res. \<not> ctxDone env (now s) \<Longrightarrow> \<not> ttlReached a (now s) \<Longrightarrow>
        getCommand a idx = Inr cmd \<Longrightarrow> Connection a = Some c \<Longrightarrow>
        extcall env (NewSession c) s = (None, s1) \<Longrightarrow>
        extcall env RequestPty s1 = (None, s2) \<Longrightarrow>
        extcall env (Output cmd) s2 = (None, s3) \<Longrightarrow>
        cadenceWait env a (snd (extcall env SessionClose s3)) = Inr s4 \<Longrightarrow>
        standardLoop n env a (idx + 1) s4 = Some res \<Longrightarrow>
        P n (idx + 1) s4 res \<Longrightarrow> P (Suc n) idx s res"
  shows "P n idx s res"
  using run
proof (induction n arbitrary: idx s)
  case 0
  then show ?case by simp
next
  case (Suc n)
  show ?case
  proof (cases "ctxDone env (now s)")
    case True
    then show ?thesis using Suc.prems cancelled by auto
  next
    case nd: False
    show ?thesis
    proof (cases "ttlReached a (now s)")
      case True
      then show ?thesis using Suc.prems nd expired by auto
    next
      case nt: False
      show ?thesis
      proof (cases "getCommand a idx")
        case (Inl p)
        then show ?thesis using Suc.prems nd nt panicked by auto
      next
        case cmd: (Inr cmd)
        show ?thesis
        proof (cases "Connection a")
          case None
          then show ?thesis using Suc.prems nd nt cmd nilconn by auto
        next
          case c: (Some c)
          note pre = nd nt cmd c
          obtain r1 s1 where e1: "extcall env (NewSession c) s = (r1, s1)" by force
          obtain r2 s2 where e2: "extcall env RequestPty s1 = (r2, s2)" by force
          obtain r3 s3 where e3: "extcall env (Output cmd) s2 = (r3, s3)" by force
          show ?thesis
          proof (cases r1)
            case (Some msg)
            then show ?thesis using Suc.prems pre e1 open_failed [OF pre] by auto
          next
            case n1: None
            note e1' = e1 [unfolded n1]
            show ?thesis
            proof (cases r2)
              case (Some msg)
              obtain a' s3' where cl: "Close env a (snd (extcall env SessionClose s2)) = (a', s3')" by force
              show ?thesis
                using Suc.prems pre e1' e2 Some cl pty_failed [OF pre e1' e2 [unfolded Some] cl] by auto
            next
              case n2: None
              note e2' = e2 [unfolded n2]
              show ?thesis
              proof (cases r3)
                case (Some msg)
                obtain a' s4 where cl: "Close env a (snd (extcall env SessionClose s3)) = (a', s4)" by force
                show ?thesis
                  using Suc.prems pre e1' e2' e3 Some cl run_failed [OF pre e1' e2' e3 [unfolded Some] cl] by auto
              next
                case n3: None
                note e3' = e3 [unfolded n3]
                show ?thesis
                proof (cases "cadenceWait env a (snd (extcall env SessionClose s3))")
                  case (Inl res')
                  then show ?thesis
                    using Suc.prems pre e1' e2' e3' returned [OF pre e1' e2' e3' Inl] by auto
                next
                  case (Inr s4)
                  then have rec: "standardLoop n env a (idx + 1) s4 = Some res"
                    using Suc.prems pre e1' e2' e3' by simp
                  show ?thesis
                    by (rule continued [OF pre e1' e2' e3' Inr rec Suc.IH [OF rec]])
                qed
              qed
            qed
          qed
        qed
      qed
    qed
  qed
qed

lemma ttyLoop_rule [consumes 1, case_names cancelled expired panicked write_failed returned continued]:
  assumes run: "ttyLoop n env a idx s = Some res"
    and cancelled: "\<And>n idx s. ctxDone env (now s) \<Longrightarrow> P (Suc n) idx s (None, a, s)"
    and expired: "\<And>n idx s. \<not> ctxDone env (now s) \<Longrightarrow> ttlReached a (now s) \<Longrightarrow> P (Suc n) idx s (None, a, s)"
    and panicked: "\<And>n idx s p. \<not> ctxDone env (now s) \<Longrightarrow> \<not> ttlReached a (now s) \<Longrightarrow>
        getCommand a idx = Inl p \<Longrightarrow> P (Suc n) idx s (Some p, a, s)"
    and write_failed: "\<And>n idx s cmd msg s1. \<not> ctxDone env (now s) \<Longrightarrow> \<not> ttlReached a (now s) \<Longrightarrow>
        getCommand a idx = Inr cmd \<Longrightarrow>
        extcall env (StdinWrite (cmd @ [CHR 0x0D])) s = (Some msg, s1) \<Longrightarrow>
        P (Suc n) idx s (Some (SshError msg), a, s1)"
    and returned: "\<And>n idx s cmd s1 res. \<not> ctxDone env (now s) \<Longrightarrow> \<not> ttlReached a (now s) \<Longrightarrow>
        getCommand a idx = Inr cmd \<Longrightarrow>
        extcall env (StdinWrite (cmd @ [CHR 0x0D])) s = (None, s1) \<Longrightarrow>
        cadenceWait env a s1 = Inl res \<Longrightarrow> P (Suc n) idx s res"
    and continued: "\<And>n idx s cmd s1 s2 res. \<not> ctxDone env (now s) \<Longrightarrow> \<not> ttlReached a (now s) \<Longrightarrow>
        getCommand a idx = Inr cmd \<Longrightarrow>
        extcall env (StdinWrite (cmd @ [CHR 0x0D])) s = (None, s1) \<Longrightarrow>
        cadenceWait env a s1 = Inr s2 \<Longrightarrow>
        ttyLoop n env a (idx + 1) s2 = Some res \<Longrightarrow>
        P n (idx + 1) s2 res \<Longrightarrow> P (Suc n) idx s res"
  shows "P n idx s res"
  using run
proof (induction n arbitrary: idx s)
  case 0
  then show ?case by simp
next
  case (Suc n)
  show ?case
  proof (cases "ctxDone env (now s)")
    case True
    then show ?thesis using Suc.prems cancelled by auto
  next
    case nd: False
    show ?thesis
    proof (cases "ttlReached a (now s)")
      case True
      then show ?thesis using Suc.prems nd expired by auto
    next
      case nt: False
      show ?thesis
      proof (cases "getCommand a idx")
        case (Inl p)
        then show ?thesis using Suc.prems nd nt panicked by auto
      next
        case cmd: (Inr cmd)
        note pre = nd nt cmd
        obtain r1 s1 where e1: "extcall env (StdinWrite (cmd @ [CHR 0x0D])) s = (r1, s1)" by force
        show ?thesis
        proof (cases r1)
          case (Some msg)
          then show ?thesis using Suc.prems pre e1 write_failed [OF pre] by auto
        next
          case None
          note e1' = e1 [unfolded None]
          show ?thesis
          proof (cases "cadenceWait env a s1")
            case (Inl res')
            then show ?thesis using Suc.prems pre e1' returned [OF pre e1' Inl] by auto
          next
            case (Inr s2)
            then have rec: "ttyLoop n env a (idx + 1) s2 = Some res"
              using Suc.prems pre e1' by simp
            show ?thesis by (rule continued [OF pre e1' Inr rec Suc.IH [OF rec]])
          qed
        qed
      qed
    qed
  qed
qed

section \<open>The backoff policy\<close>

lemma getBackoffDuration_nonneg:
  "0 \<le> sint k \<Longrightarrow> \<exists>d. getBackoffDuration k = Inr d"
  by (simp add: getBackoffDuration_def word_sless_alt Let_def)

text \<open>
  Up to attempt 33 the product \<open>2 ^ n * 1000000000\<close> fits in 63 bits, and the delay is
  \<open>min (2 ^ n) 16\<close> seconds.
\<close>

lemma getBackoffDuration_upto_33:
  assumes "n \<le> 33"
  shows "\<exists>d. getBackoffDuration (word_of_nat n) = Inr d \<and> sint d = min (2 ^ n) 16 * 1000000000"
proof -
  define b :: int64 where "b = 2 ^ n * Second"
  have le: "(2::int) ^ n \<le> 2 ^ 33" using assms by (intro power_increasing) simp_all
  have nn: "int n < 2 ^ 63" using assms by simp
  have s: "sint (word_of_nat n :: int64) = int n"
    using sint_word_of_int_small [of "int n"] nn by simp
  have u: "unat (word_of_nat n :: int64) = n"
    using assms by (simp add: unat_of_nat)
  have "(2::int) ^ n * 1000000000 \<le> 2 ^ 33 * 1000000000"
    using le by (rule mult_right_mono) simp
  then have hi: "(2::int) ^ n * 1000000000 < 2 ^ 63" by simp
  have "(0::int) \<le> 2 ^ n * 1000000000" by simp
  then have lo: "- (2 ^ 63) \<le> (2::int) ^ n * 1000000000" by (rule order_trans [rotated]) simp
  have bw: "b = word_of_int (2 ^ n * 1000000000)" by (simp add: b_def Second_def)
  have sb: "sint b = 2 ^ n * 1000000000"
    unfolding bw using lo hi by (rule sint_word_of_int_small)
  have s16: "sint (16 * Second) = 16000000000" by (simp add: Second_def)
  have gb: "getBackoffDuration (word_of_nat n) = Inr (if 16 * Second <s b then 16 * Second else b)"
    by (simp add: getBackoffDuration_def word_sless_alt Let_def s u b_def)
  show ?thesis
  proof (cases "(16::int) < 2 ^ n")
    case True
    then have "getBackoffDuration (word_of_nat n) = Inr (16 * Second)"
      unfolding gb by (simp add: word_sless_alt sb s16)
    then show ?thesis using True s16 by (simp add: min_def)
  next
    case False
    then have "getBackoffDuration (word_of_nat n) = Inr b"
      unfolding gb by (simp add: word_sless_alt sb s16)
    then show ?thesis using False sb by (simp add: min_def)
  qed
qed

text \<open>
  Claim C1 says that for every attempt index \<open>a \<ge> 0\<close> the delay is
  \<open>min (2 ^ a) 16\<close> seconds, hence never above 16 seconds and never decreasing.
  From attempt 34 on the product \<^verbatim>\<open>time.Duration(1<<attempt) * time.Second\<close> no
  longer fits: at attempt 34 it wraps to a negative duration, which the cap
  \<^verbatim>\<open>backoff > 16*time.Second\<close> lets through, and from attempt 55 on it is 0.
\<close>

theorem getBackoffDuration_wraps_at_34:
  "getBackoffDuration 33 = Inr 16000000000 \<and>
   getBackoffDuration 34 = Inr (- 1266874889709551616) \<and>
   sint (- 1266874889709551616 :: duration) = - 1266874889709551616 \<and>
   getBackoffDuration 55 = Inr 0"
  by (simp add: getBackoffDuration_def Second_def word_sless_alt)

section \<open>Connect\<close>

subsection \<open>No call starts once the context is cancelled\<close>

lemma connectLoop_events:
  assumes "connectLoop env a m k e s = res"
  shows "extendsBy (connectEvent env) s (snd (snd res))"
  using assms
proof (induct rule: connectLoop_rule)
  case (connected k e s s1)
  then show ?case by (auto intro: extendsBy_extcall)
next
  case (panicked k e s msg s1 p)
  then show ?case by (auto intro: extendsBy_extcall)
next
  case (interrupted k e s msg s1 b s2)
  have "extendsBy (connectEvent env) s s1" using interrupted by (auto intro: extendsBy_extcall)
  also have "extendsBy (connectEvent env) s1 s2" using interrupted by (auto intro: extendsBy_selectAfter)
  finally show ?case by simp
next
  case (retried k e s msg s1 b s2 res)
  have "extendsBy (connectEvent env) s s1" using retried by (auto intro: extendsBy_extcall)
  also have "extendsBy (connectEvent env) s1 s2" using retried by (auto intro: extendsBy_selectAfter)
  also note retried(8)
  finally show ?case .
next
  case (final k e s msg s1 res)
  have "extendsBy (connectEvent env) s s1" using final by (auto intro: extendsBy_extcall)
  also note final(6)
  finally show ?case .
qed simp_all

lemma Connect_events:
  assumes run: "Connect env a s = (r, a', s')"
  shows "extendsBy (connectEvent env) s s'"
proof (cases "Connection a")
  case (Some c)
  then show ?thesis using run by (auto simp: Connect_def)
next
  case None
  obtain w s1 where pre: "(if 0 <s ConnectionDelay a
             then selectAfter env PreConnectDelay (ConnectionDelay a * Second) s
             else (TimerFired, s)) = (w, s1)" by force
  have 1: "extendsBy (connectEvent env) s s1"
    using pre by (auto split: if_splits intro: extendsBy_selectAfter)
  show ?thesis
  proof (cases w)
    case CtxDone
    then show ?thesis using run None pre 1 unfolding Connect_def by auto
  next
    case TimerFired
    then have "connectLoop env a (MaxRetries a + 1) 0 None s1 = (r, a', s')"
      using run None pre unfolding Connect_def by simp
    from connectLoop_events [OF this] 1 show ?thesis by (auto intro: extendsBy_trans)
  qed
qed

lemma Connect_dials_before_cancel:
  assumes "Connect env a s = (r, a', s')"
    and "EvCall t c \<in> set (drop (length (trace s)) (trace s'))"
  shows "\<not> ctxDone env t"
proof -
  have "list_all (connectEvent env) (drop (length (trace s)) (trace s'))"
    using Connect_events [OF assms(1)] by (rule extendsBy_drop)
  with assms(2) have "connectEvent env (EvCall t c)" by (auto simp: list_all_iff)
  then show ?thesis by simp
qed

subsection \<open>A server that refuses every dial\<close>

lemma connectLoop_fail_last:
  "k <s m \<Longrightarrow> \<not> ctxDone env (now s) \<Longrightarrow>
   extcall env (Dial (Host a) (Port a)) s = (Some msg, s1) \<Longrightarrow>
   \<not> k <s m - 1 \<Longrightarrow> \<not> k + 1 <s m \<Longrightarrow>
   connectLoop env a m k e s = (Some (SshError msg), a, s1)"
  by (subst connectLoop.simps, simp, subst connectLoop.simps, simp)

lemma connectLoop_fail_retry:
  "k <s m \<Longrightarrow> \<not> ctxDone env (now s) \<Longrightarrow>
   extcall env (Dial (Host a) (Port a)) s = (Some msg, s1) \<Longrightarrow>
   k <s m - 1 \<Longrightarrow> getBackoffDuration k = Inr b \<Longrightarrow>
   selectAfter env RetryBackoff b s1 = (TimerFired, s2) \<Longrightarrow>
   connectLoop env a m k e s = connectLoop env a m (k + 1) (Some (SshError msg)) s2"
  by (subst connectLoop.simps) simp

lemma connectLoop_all_fail:
  assumes nc: "cancelAt env = None"
    and fail: "\<forall>i. snd (outcome env i (Dial (Host a) (Port a))) \<noteq> None"
    and r: "sint r < 9223372036854775807"
  shows "0 \<le> sint k \<Longrightarrow> sint k \<le> sint r \<Longrightarrow> j = nat (sint r - sint k) \<Longrightarrow>
     \<exists>msg new t. connectLoop env a (r + 1) k e s =
          (Some (SshError msg), a, \<lparr>now = t, trace = trace s @ new\<rparr>) \<and>
        length (filter isDial new) = j + 1 \<and>
        map Inr (backoffWaits new) = map (\<lambda>i. getBackoffDuration (k + word_of_nat i)) [0..<j] \<and>
        new \<noteq> [] \<and> (\<exists>t0. last new = EvCall t0 (Dial (Host a) (Port a))) \<and>
        snd (outcome env (length (trace s @ new) - 1) (Dial (Host a) (Port a))) = Some msg"
proof (induction j arbitrary: k e s)
  case 0
  then have "sint k = sint r" by simp
  then have keq: "k = r" by (rule signed_word_eqI)
  have m: "sint (r + 1) = sint r + 1" using r by (rule sint_succ)
  obtain msg where msg: "snd (outcome env (length (trace s)) (Dial (Host a) (Port a))) = Some msg"
    using fail by (metis not_None_eq)
  define s1 where "s1 = snd (extcall env (Dial (Host a) (Port a)) s)"
  have ec: "extcall env (Dial (Host a) (Port a)) s = (Some msg, s1)"
    by (simp add: s1_def extcall_eq snd_extcall msg)
  have tr1: "trace s1 = trace s @ [EvCall (now s) (Dial (Host a) (Port a))]"
    by (simp add: s1_def snd_extcall)
  have c1: "r <s r + 1" using m by (simp add: word_sless_alt)
  have c3: "\<not> ctxDone env (now s)" using nc by (simp add: ctxDone_def)
  have "connectLoop env a (r + 1) k e s = (Some (SshError msg), a, s1)"
    unfolding keq by (rule connectLoop_fail_last [OF c1 c3 ec]) (simp_all add: word_sless_alt)
  then have "connectLoop env a (r + 1) k e s =
      (Some (SshError msg), a, \<lparr>now = now s1, trace = trace s @ [EvCall (now s) (Dial (Host a) (Port a))]\<rparr>)"
    using tr1 by (cases s1) simp
  then show ?case
    by (intro exI [of _ msg] exI [of _ "[EvCall (now s) (Dial (Host a) (Port a))]"] exI [of _ "now s1"])
       (simp add: msg backoffWaits_def)
next
  case (Suc j)
  then have lt: "sint k < sint r" by simp
  have m: "sint (r + 1) = sint r + 1" using r by (rule sint_succ)
  have k1: "sint (k + 1) = sint k + 1" using lt r by (intro sint_succ) simp
  obtain msg0 where msg0: "snd (outcome env (length (trace s)) (Dial (Host a) (Port a))) = Some msg0"
    using fail by (metis not_None_eq)
  obtain b where b: "getBackoffDuration k = Inr b"
    using getBackoffDuration_nonneg [OF Suc.prems(1)] by blast
  have c1: "k <s r + 1" using m lt by (simp add: word_sless_alt)
  have c2: "k <s r + 1 - 1" using lt by (simp add: word_sless_alt)
  have c3: "\<not> ctxDone env (now s)" using nc by (simp add: ctxDone_def)
  define s1 where "s1 = snd (extcall env (Dial (Host a) (Port a)) s)"
  define s2 where "s2 = snd (selectAfter env RetryBackoff b s1)"
  have ec: "extcall env (Dial (Host a) (Port a)) s = (Some msg0, s1)"
    by (simp add: s1_def extcall_eq snd_extcall msg0)
  have sel: "selectAfter env RetryBackoff b s1 = (TimerFired, s2)"
    by (simp add: s2_def selectAfter_never [OF nc])
  have tr2: "trace s2 = trace s @ [EvCall (now s) (Dial (Host a) (Port a)), EvWait (now s1) RetryBackoff b]"
    by (simp add: s2_def s1_def selectAfter_never [OF nc] snd_extcall)
  have step: "connectLoop env a (r + 1) k e s = connectLoop env a (r + 1) (k + 1) (Some (SshError msg0)) s2"
    by (rule connectLoop_fail_retry [OF c1 c3 ec c2 b sel])
  have "0 \<le> sint (k + 1)" "sint (k + 1) \<le> sint r" "j = nat (sint r - sint (k + 1))"
    using Suc.prems lt k1 by simp_all
  from Suc.IH [OF this, of "Some (SshError msg0)" s2]
  obtain msg new t where
    res: "connectLoop env a (r + 1) (k + 1) (Some (SshError msg0)) s2 =
            (Some (SshError msg), a, \<lparr>now = t, trace = trace s2 @ new\<rparr>)"
    and n1: "length (filter isDial new) = j + 1"
    and n2: "map Inr (backoffWaits new) = map (\<lambda>i. getBackoffDuration (k + 1 + word_of_nat i)) [0..<j]"
    and n3: "new \<noteq> []" "\<exists>t0. last new = EvCall t0 (Dial (Host a) (Port a))"
    and n4: "snd (outcome env (length (trace s2 @ new) - 1) (Dial (Host a) (Port a))) = Some msg"
    by blast
  let ?new = "EvCall (now s) (Dial (Host a) (Port a)) # EvWait (now s1) RetryBackoff b # new"
  have "connectLoop env a (r + 1) k e s = (Some (SshError msg), a, \<lparr>now = t, trace = trace s @ ?new\<rparr>)"
    by (simp add: step res tr2)
  moreover have "length (filter isDial ?new) = Suc j + 1" using n1 by simp
  moreover have "map Inr (backoffWaits ?new) = map (\<lambda>i. getBackoffDuration (k + word_of_nat i)) [0..<Suc j]"
  proof -
    have "map (\<lambda>i. getBackoffDuration (k + word_of_nat i)) [0..<Suc j]
        = getBackoffDuration k # map (\<lambda>i. getBackoffDuration (k + 1 + word_of_nat i)) [0..<j]"
      by (simp add: upt_conv_Cons map_Suc_upt [symmetric] add.assoc del: upt_Suc)
    then show ?thesis
      using n2 by (simp add: backoffWaits_def b)
  qed
  moreover have "?new \<noteq> []" by simp
  moreover have "\<exists>t0. last ?new = EvCall t0 (Dial (Host a) (Port a))" using n3 by simp
  moreover have "snd (outcome env (length (trace s @ ?new) - 1) (Dial (Host a) (Port a))) = Some msg"
    using n4 by (simp add: tr2)
  ultimately show ?case by blast
qed

text \<open>
  With \<open>0 \<le> MaxRetries < 2 ^ 63 - 1\<close>, no cancellation and every dial failing,
  \<^verbatim>\<open>Connect\<close> dials \<open>MaxRetries + 1\<close> times, waits \<open>MaxRetries\<close> times in between,
  the \<open>i\<close>-th wait being \<open>getBackoffDuration i\<close>, and returns the error of the
  last dial with the agent as it was.
\<close>

lemma Connect_all_fail:
  assumes idle: "Connection a = None"
    and nc: "cancelAt env = None"
    and fail: "\<forall>i. snd (outcome env i (Dial (Host a) (Port a))) \<noteq> None"
    and r: "0 \<le> sint (MaxRetries a)" "sint (MaxRetries a) < 9223372036854775807"
  shows "\<exists>msg s'. Connect env a s = (Some (SshError msg), a, s') \<and>
           length (filter isDial (drop (length (trace s)) (trace s'))) = nat (sint (MaxRetries a)) + 1 \<and>
           map Inr (backoffWaits (drop (length (trace s)) (trace s')))
             = map (\<lambda>i. getBackoffDuration (word_of_nat i)) [0..<nat (sint (MaxRetries a))] \<and>
           trace s' \<noteq> [] \<and> (\<exists>t0. last (trace s') = EvCall t0 (Dial (Host a) (Port a))) \<and>
           snd (outcome env (length (trace s') - 1) (Dial (Host a) (Port a))) = Some msg"
proof -
  define s1 where "s1 = (if 0 <s ConnectionDelay a
      then snd (selectAfter env PreConnectDelay (ConnectionDelay a * Second) s) else s)"
  define pre where "pre = (if 0 <s ConnectionDelay a
      then [EvWait (now s) PreConnectDelay (ConnectionDelay a * Second)] else [])"
  have tr1: "trace s1 = trace s @ pre"
    by (simp add: s1_def pre_def selectAfter_never [OF nc])
  have step: "Connect env a s = connectLoop env a (MaxRetries a + 1) 0 None s1"
    by (simp add: Connect_def idle s1_def selectAfter_never [OF nc])
  from connectLoop_all_fail [OF nc fail r(2), of 0 "nat (sint (MaxRetries a))" None s1] r(1)
  obtain msg new t where
    res: "connectLoop env a (MaxRetries a + 1) 0 None s1 =
            (Some (SshError msg), a, \<lparr>now = t, trace = trace s1 @ new\<rparr>)"
    and n1: "length (filter isDial new) = nat (sint (MaxRetries a)) + 1"
    and n2: "map Inr (backoffWaits new) = map (\<lambda>i. getBackoffDuration (0 + word_of_nat i)) [0..<nat (sint (MaxRetries a))]"
    and n3: "new \<noteq> []" "\<exists>t0. last new = EvCall t0 (Dial (Host a) (Port a))"
    and n4: "snd (outcome env (length (trace s1 @ new) - 1) (Dial (Host a) (Port a))) = Some msg"
    by auto
  let ?s' = "\<lparr>now = t, trace = trace s1 @ new\<rparr>"
  have d: "drop (length (trace s)) (trace ?s') = pre @ new" by (simp add: tr1)
  have "Connect env a s = (Some (SshError msg), a, ?s')" by (simp add: step res)
  moreover have "length (filter isDial (drop (length (trace s)) (trace ?s'))) = nat (sint (MaxRetries a)) + 1"
    unfolding d using n1 by (simp add: pre_def)
  moreover have "map Inr (backoffWaits (drop (length (trace s)) (trace ?s')))
             = map (\<lambda>i. getBackoffDuration (word_of_nat i)) [0..<nat (sint (MaxRetries a))]"
    unfolding d using n2 by (simp add: pre_def backoffWaits_def List.map_filter_def)
  moreover have "trace ?s' \<noteq> []" using n3 by simp
  moreover have "\<exists>t0. last (trace ?s') = EvCall t0 (Dial (Host a) (Port a))" using n3 by simp
  moreover have "snd (outcome env (length (trace ?s') - 1) (Dial (Host a) (Port a))) = Some msg"
    using n4 by simp
  ultimately show ?thesis by blast
qed

text \<open>
  Claim C2 says that with \<open>maxRetries = r\<close>, every dial failing and no cancellation,
  connect makes exactly \<open>r + 1\<close> dial attempts with \<open>r\<close> waits in between, wait
  \<open>i\<close> lasting \<open>delay(i)\<close>, and returns the last dial error; and that no dial
  begins once the token is signalled. The last part is \<open>Connect_dials_before_cancel\<close>
  and the count is \<open>Connect_all_fail\<close>, but two inputs escape:
  with \<open>MaxRetries = 2 ^ 63 - 1\<close> the sum \<^verbatim>\<open>a.MaxRetries + 1\<close> wraps to the least
  integer, the loop body never runs and \<^verbatim>\<open>Connect\<close> returns \<^verbatim>\<open>nil\<close> without
  one dial; and with \<open>MaxRetries = 35\<close> the 35th wait is the wrapped, negative
  duration of attempt 34 instead of 16 seconds.
\<close>

theorem Connect_retry_overflows:
  "Connect refusing (exampleAgent\<lparr>MaxRetries := 9223372036854775807\<rparr>) start
     = (None, exampleAgent\<lparr>MaxRetries := 9223372036854775807\<rparr>, start) \<and>
   fst (Connect refusing (exampleAgent\<lparr>MaxRetries := 35\<rparr>) start)
     = Some (SshError ''connection refused'') \<and>
   length (filter isDial (trace (snd (snd (Connect refusing (exampleAgent\<lparr>MaxRetries := 35\<rparr>) start))))) = 36 \<and>
   backoffWaits (trace (snd (snd (Connect refusing (exampleAgent\<lparr>MaxRetries := 35\<rparr>) start))))
     = [1000000000, 2000000000, 4000000000, 8000000000] @ replicate 30 16000000000
       @ [- 1266874889709551616]"
  by code_simp

subsection \<open>What Connect changes\<close>






section \<open>The command source\<close>

lemma getCommand_nonneg: "0 \<le> sint idx \<Longrightarrow> \<exists>c. getCommand a idx = Inr c"
  by (simp add: getCommand_def)

lemma getCommand_negative:
  "0 < length (CommandScript a) \<Longrightarrow> sint idx < 0 \<Longrightarrow> getCommand a idx = Inl (Panic IndexOutOfRange)"
  by (simp add: getCommand_def)

text \<open>
  Claim C3: with a script of length \<open>L > 0\<close>, \<^verbatim>\<open>getCommand\<close> returns entry \<open>i\<close> for
  \<open>0 \<le> i < L\<close> and the empty string, not an error, for \<open>i \<ge> L\<close>; with no script
  it returns the same default command, \<^verbatim>\<open>echo 'Hello, world!'\<close>, at every index.
\<close>

theorem getCommand_by_index:
  "(0 < length (CommandScript a) \<longrightarrow>
      (0 \<le> sint i \<and> sint i < int (length (CommandScript a)) \<longrightarrow>
         getCommand a i = Inr (CommandScript a ! nat (sint i))) \<and>
      (int (length (CommandScript a)) \<le> sint i \<longrightarrow> getCommand a i = Inr [])) \<and>
   (CommandScript a = [] \<longrightarrow>
      getCommand a i = Inr (''echo '' @ [CHR 0x27] @ ''Hello, world!'' @ [CHR 0x27]))"
  by (simp add: getCommand_def defaultCommand_def)

theorem getCommand_by_index_witness:
  "getCommand exampleAgent 1 = Inr ''pwd'' \<and>
   getCommand exampleAgent 2 = Inr [] \<and>
   getCommand (exampleAgent\<lparr>CommandScript := []\<rparr>) 7 = getCommand (exampleAgent\<lparr>CommandScript := []\<rparr>) (- 3)"
  using getCommand_by_index [of exampleAgent 1] getCommand_by_index [of exampleAgent 2]
    getCommand_by_index [of "exampleAgent\<lparr>CommandScript := []\<rparr>" 7]
    getCommand_by_index [of "exampleAgent\<lparr>CommandScript := []\<rparr>" "- 3"]
  by (simp add: exampleAgent_def)

section \<open>Close\<close>

text \<open>
  Claim C9: \<^verbatim>\<open>Close\<close> on an agent that holds no connection changes nothing; after
  any \<^verbatim>\<open>Close\<close> the agent holds no connection; and closing twice gives what closing
  once gives.
\<close>

theorem Close_idempotent:
  "(Connection a = None \<longrightarrow> Close env a s = (a, s)) \<and>
   Connection (fst (Close env a s)) = None \<and>
   (case Close env a s of (a', s') \<Rightarrow> Close env a' s') = Close env a s"
  by (simp add: Close_def split: option.splits)

theorem Close_idempotent_witness:
  "Close accepting exampleAgent start = (exampleAgent, start) \<and>
   Close accepting connectedAgent start
     = (exampleAgent, \<lparr>now = 7, trace = [EvCall 0 (ConnClose 0)]\<rparr>) \<and>
   Close accepting exampleAgent \<lparr>now = 7, trace = [EvCall 0 (ConnClose 0)]\<rparr>
     = (exampleAgent, \<lparr>now = 7, trace = [EvCall 0 (ConnClose 0)]\<rparr>)"
proof -
  have n: "Connection exampleAgent = None" by (simp add: exampleAgent_def)
  have c: "Close accepting connectedAgent start
     = (exampleAgent, \<lparr>now = 7, trace = [EvCall 0 (ConnClose 0)]\<rparr>)"
    by (simp add: Close_def connectedAgent_def exampleAgent_def accepting_def start_def extcall_def)
  from Close_idempotent [of exampleAgent accepting start] n
  have 1: "Close accepting exampleAgent start = (exampleAgent, start)" by simp
  from Close_idempotent [of connectedAgent accepting start]
  have 2: "Close accepting exampleAgent \<lparr>now = 7, trace = [EvCall 0 (ConnClose 0)]\<rparr>
     = (exampleAgent, \<lparr>now = 7, trace = [EvCall 0 (ConnClose 0)]\<rparr>)"
    by (simp add: c)
  from 1 c 2 show ?thesis by simp
qed

section \<open>The command loops\<close>

subsection \<open>Running without a connection\<close>

text \<open>
  Claim C7: an agent that holds no connection gets \<^verbatim>\<open>Connection is nil\<close> from
  \<^verbatim>\<open>RunProgram\<close> in either mode, at once: whatever the fuel, the run is over, with the
  agent, the clock and the trace as they were, so no session was opened and no command
  issued.
\<close>

theorem RunProgram_not_connected:
  "Connection a = None \<Longrightarrow>
     RunProgram n env a s = Some (Some ConnectionIsNil, a, s) \<and>
     RunStandardProgram n env a s = Some (Some ConnectionIsNil, a, s) \<and>
     RunTTYProgram n env a s = Some (Some ConnectionIsNil, a, s)"
  by (simp add: RunProgram_def RunTTYProgram_def RunStandardProgram_def)

theorem RunProgram_not_connected_witness:
  "RunProgram 0 accepting exampleAgent start = Some (Some ConnectionIsNil, exampleAgent, start) \<and>
   RunProgram 5 accepting (exampleAgent\<lparr>UseTTY := True\<rparr>) start
     = Some (Some ConnectionIsNil, exampleAgent\<lparr>UseTTY := True\<rparr>, start)"
  using RunProgram_not_connected [of exampleAgent 0 accepting start]
    RunProgram_not_connected [of "exampleAgent\<lparr>UseTTY := True\<rparr>" 5 accepting start]
  by (simp add: exampleAgent_def)

subsection \<open>The events of a run\<close>

lemma standardLoop_events:
  assumes "standardLoop n env a idx s = Some res"
  shows "extendsBy (cycleEvent env a) s (snd (snd res))"
  using assms
proof (induct rule: standardLoop_rule)
  case (open_failed n idx s cmd c msg s1)
  then show ?case by (auto intro: extendsBy_extcall)
next
  case (pty_failed n idx s cmd c s1 msg s2 a' s3)
  let ?E = "extendsBy (cycleEvent env a)"
  have "?E s s1" using pty_failed by (auto intro: extendsBy_extcall)
  also have "?E s1 s2" using pty_failed by (auto intro: extendsBy_extcall)
  also have "?E s2 (snd (extcall env SessionClose s2))" by (simp add: extendsBy_snd_extcall)
  also have "?E (snd (extcall env SessionClose s2)) s3"
    using pty_failed by (auto intro: extendsBy_Close)
  finally show ?case by simp
next
  case (run_failed n idx s cmd c s1 s2 msg s3 a' s4)
  let ?E = "extendsBy (cycleEvent env a)"
  have "?E s s1" using run_failed by (auto intro: extendsBy_extcall)
  also have "?E s1 s2" using run_failed by (auto intro: extendsBy_extcall)
  also have "?E s2 s3" using run_failed by (auto intro: extendsBy_extcall)
  also have "?E s3 (snd (extcall env SessionClose s3))" by (simp add: extendsBy_snd_extcall)
  also have "?E (snd (extcall env SessionClose s3)) s4"
    using run_failed by (auto intro: extendsBy_Close)
  finally show ?case by simp
next
  case (returned n idx s cmd c s1 s2 s3 res)
  let ?E = "extendsBy (cycleEvent env a)"
  obtain r a' s' where res: "res = (r, a', s')" by (cases res)
  have "?E s s1" using returned by (auto intro: extendsBy_extcall)
  also have "?E s1 s2" using returned by (auto intro: extendsBy_extcall)
  also have "?E s2 s3" using returned by (auto intro: extendsBy_extcall)
  also have "?E s3 (snd (extcall env SessionClose s3))" by (simp add: extendsBy_snd_extcall)
  also have "?E (snd (extcall env SessionClose s3)) s'"
    using returned res by (auto intro: extendsBy_cadenceWait_Inl)
  finally show ?case by (simp add: res)
next
  case (continued n idx s cmd c s1 s2 s3 s4 res)
  let ?E = "extendsBy (cycleEvent env a)"
  have "?E s s1" using continued by (auto intro: extendsBy_extcall)
  also have "?E s1 s2" using continued by (auto intro: extendsBy_extcall)
  also have "?E s2 s3" using continued by (auto intro: extendsBy_extcall)
  also have "?E s3 (snd (extcall env SessionClose s3))" by (simp add: extendsBy_snd_extcall)
  also have "?E (snd (extcall env SessionClose s3)) s4"
    using continued by (auto intro: extendsBy_cadenceWait_Inr)
  also note continued(10)
  finally show ?case .
qed simp_all

lemma ttyLoop_events:
  assumes "ttyLoop n env a idx s = Some res"
  shows "extendsBy (cycleEvent env a) s (snd (snd res))"
  using assms
proof (induct rule: ttyLoop_rule)
  case (write_failed n idx s cmd msg s1)
  then show ?case by (auto intro: extendsBy_extcall)
next
  case (returned n idx s cmd s1 res)
  let ?E = "extendsBy (cycleEvent env a)"
  obtain r a' s' where res: "res = (r, a', s')" by (cases res)
  have "?E s s1" using returned by (auto intro: extendsBy_extcall)
  also have "?E s1 s'" using returned res by (auto intro: extendsBy_cadenceWait_Inl)
  finally show ?case by (simp add: res)
next
  case (continued n idx s cmd s1 s2 res)
  let ?E = "extendsBy (cycleEvent env a)"
  have "?E s s1" using continued by (auto intro: extendsBy_extcall)
  also have "?E s1 s2" using continued by (auto intro: extendsBy_cadenceWait_Inr)
  also note continued(7)
  finally show ?case .
qed simp_all

lemma ttySetup_Inl:
  "ttySetup env a cs s = Inl (e, a', s') \<Longrightarrow> (\<And>t c. P (EvCall t c)) \<Longrightarrow> extendsBy P s s'"
proof (induction cs arbitrary: s)
  case Nil
  then show ?case by simp
next
  case (Cons c cs)
  obtain r s1 where ec: "extcall env c s = (r, s1)" by force
  have 1: "extendsBy P s s1" using ec Cons.prems(2) by (auto intro: extendsBy_extcall)
  show ?case
  proof (cases r)
    case None
    then have "ttySetup env a cs s1 = Inl (e, a', s')" using Cons.prems(1) ec by simp
    from Cons.IH [OF this Cons.prems(2)] 1 show ?thesis by (rule extendsBy_trans [rotated])
  next
    case (Some msg)
    then obtain a2 where "Close env a s1 = (a2, s')"
      using Cons.prems(1) ec by (auto split: prod.splits)
    then have "extendsBy P s1 s'" using Cons.prems(2) by (auto intro: extendsBy_Close)
    with 1 show ?thesis by (rule extendsBy_trans)
  qed
qed

lemma ttySetup_Inr:
  "ttySetup env a cs s = Inr s' \<Longrightarrow> (\<And>t c. P (EvCall t c)) \<Longrightarrow> extendsBy P s s'"
proof (induction cs arbitrary: s)
  case Nil
  then show ?case by simp
next
  case (Cons c cs)
  obtain r s1 where ec: "extcall env c s = (r, s1)" by force
  have 1: "extendsBy P s s1" using ec Cons.prems(2) by (auto intro: extendsBy_extcall)
  show ?case
  proof (cases r)
    case None
    then have "ttySetup env a cs s1 = Inr s'" using Cons.prems(1) ec by simp
    from Cons.IH [OF this Cons.prems(2)] 1 show ?thesis by (rule extendsBy_trans [rotated])
  next
    case (Some msg)
    then show ?thesis using Cons.prems(1) ec by (auto split: prod.splits)
  qed
qed

lemma ttySetup_error:
  "ttySetup env a cs s = Inl (e, a', s') \<Longrightarrow> \<exists>msg. e = SshError msg"
  by (induction cs arbitrary: s) (auto split: prod.splits option.splits)

lemma ttySession_events:
  assumes "ttySession n env a s = Some (r, a', s')"
  shows "extendsBy (cadenceEvent a) s s'"
proof (cases "ttySetup env a [RequestPty, StdinPipe, StdoutPipe, StderrPipe, Shell] s")
  case (Inl x)
  obtain e a1 s1 where x: "x = (e, a1, s1)" by (cases x)
  then have "s1 = s'" using assms Inl by (simp add: ttySession_def)
  then show ?thesis using ttySetup_Inl [OF Inl [unfolded x], of "cadenceEvent a"] by simp
next
  case (Inr s1)
  have 1: "extendsBy (cadenceEvent a) s s1" using ttySetup_Inr [OF Inr, of "cadenceEvent a"] by simp
  obtain w s2 where sel: "selectAfter env ShellWarmup (10 * Second) s1 = (w, s2)" by force
  have 2: "extendsBy (cadenceEvent a) s1 s2" using sel by (rule extendsBy_selectAfter) simp
  show ?thesis
  proof (cases w)
    case CtxDone
    then have "s2 = s'" using assms Inr sel by (simp add: ttySession_def)
    then show ?thesis using 1 2 by (auto intro: extendsBy_trans)
  next
    case TimerFired
    then have "ttyLoop n env a 0 s2 = Some (r, a', s')" using assms Inr sel by (simp add: ttySession_def)
    from ttyLoop_events [OF this] have "extendsBy (cadenceEvent a) s2 s'"
      by (auto intro: extendsBy_mono cycleEvent_cadenceEvent)
    with 1 2 show ?thesis by (blast intro: extendsBy_trans)
  qed
qed

lemma RunProgram_events:
  assumes "RunProgram n env a s = Some (r, a', s')"
  shows "extendsBy (cadenceEvent a) s s'"
proof (cases "UseTTY a")
  case False
  then have "RunStandardProgram n env a s = Some (r, a', s')" using assms by (simp add: RunProgram_def)
  then show ?thesis
    by (auto simp: RunStandardProgram_def split: if_splits
        dest!: standardLoop_events intro: extendsBy_mono cycleEvent_cadenceEvent)
next
  case True
  then have run: "RunTTYProgram n env a s = Some (r, a', s')" using assms by (simp add: RunProgram_def)
  show ?thesis
  proof (cases "Connection a")
    case None
    then show ?thesis using run by (simp add: RunTTYProgram_def)
  next
    case (Some c)
    obtain r1 s1 where ec: "extcall env (NewSession c) s = (r1, s1)" by force
    have 1: "extendsBy (cadenceEvent a) s s1" using ec by (rule extendsBy_extcall) simp
    show ?thesis
    proof (cases r1)
      case (Some msg)
      then show ?thesis using run \<open>Connection a = Some c\<close> ec 1 by (simp add: RunTTYProgram_def)
    next
      case None
      then obtain s2 where ses: "ttySession n env a s1 = Some (r, a', s2)"
        and s': "s' = snd (extcall env SessionClose s2)"
        using run \<open>Connection a = Some c\<close> ec
        by (auto simp: RunTTYProgram_def split: option.splits)
      have "extendsBy (cadenceEvent a) s2 s'" unfolding s' by (rule extendsBy_snd_extcall) simp
      with 1 ttySession_events [OF ses] show ?thesis by (blast intro: extendsBy_trans)
    qed
  qed
qed

subsection \<open>A failure inside a cycle\<close>

text \<open>
  The three ways a cycle of the standard loop fails: the session cannot be opened (the
  agent is returned as it is), the terminal request fails, the command fails (in both
  the session and then the connection are closed and the handle is cleared). Each
  returns the error out of the loop.
\<close>

lemma standardLoop_session_failure:
  "\<not> ctxDone env (now s) \<Longrightarrow> \<not> ttlReached a (now s) \<Longrightarrow> getCommand a idx = Inr cmd \<Longrightarrow>
   Connection a = Some c \<Longrightarrow> extcall env (NewSession c) s = (Some msg, s1) \<Longrightarrow>
   standardLoop (Suc n) env a idx s = Some (Some (SshError msg), a, s1)"
  by simp

lemma standardLoop_pty_failure:
  "\<not> ctxDone env (now s) \<Longrightarrow> \<not> ttlReached a (now s) \<Longrightarrow> getCommand a idx = Inr cmd \<Longrightarrow>
   Connection a = Some c \<Longrightarrow> extcall env (NewSession c) s = (None, s1) \<Longrightarrow>
   extcall env RequestPty s1 = (Some msg, s2) \<Longrightarrow>
   standardLoop (Suc n) env a idx s =
     Some (Some (SshError msg), a\<lparr>Connection := None\<rparr>,
           snd (extcall env (ConnClose c) (snd (extcall env SessionClose s2))))"
  by (simp add: Close_def)

lemma standardLoop_command_failure:
  "\<not> ctxDone env (now s) \<Longrightarrow> \<not> ttlReached a (now s) \<Longrightarrow> getCommand a idx = Inr cmd \<Longrightarrow>
   Connection a = Some c \<Longrightarrow> extcall env (NewSession c) s = (None, s1) \<Longrightarrow>
   extcall env RequestPty s1 = (None, s2) \<Longrightarrow>
   extcall env (Output cmd) s2 = (Some msg, s3) \<Longrightarrow>
   standardLoop (Suc n) env a idx s =
     Some (Some (SshError msg), a\<lparr>Connection := None\<rparr>,
           snd (extcall env (ConnClose c) (snd (extcall env SessionClose s3))))"
  by (simp add: Close_def)

text \<open>
  Claim C4 says that in standard mode a cycle in which opening the session or running
  the command fails releases the connection (the stored handle is cleared) and returns
  the failure, with no retry. When \<^verbatim>\<open>sess.Output\<close> fails, and when
  \<^verbatim>\<open>sess.RequestPty\<close> fails, the code calls \<^verbatim>\<open>a.Close()\<close> before it returns; when
  \<^verbatim>\<open>a.Connection.NewSession()\<close> fails it returns the error at once, the handle still
  stored. The first run below is a session that cannot be opened, the second a command
  that fails.
\<close>

theorem RunStandardProgram_keeps_connection_when_session_fails:
  "RunStandardProgram 1 sessionRefusing connectedAgent start
     = Some (Some (SshError ''open failed''), connectedAgent,
             \<lparr>now = 5, trace = [EvCall 0 (NewSession 0)]\<rparr>) \<and>
   Connection connectedAgent = Some 0 \<and>
   RunStandardProgram 1 commandFailing connectedAgent start
     = Some (Some (SshError ''exit status 1''), connectedAgent\<lparr>Connection := None\<rparr>,
             \<lparr>now = 33,
              trace = [EvCall 0 (NewSession 0), EvCall 7 RequestPty, EvCall 14 (Output ''ls''),
                       EvCall 19 SessionClose, EvCall 26 (ConnClose 0)]\<rparr>)"
  by code_simp

subsection \<open>Cancellation\<close>

lemma standardLoop_top_cancelled:
  "ctxDone env (now s) \<Longrightarrow> standardLoop (Suc n) env a idx s = Some (None, a, s)"
  by simp

lemma standardLoop_sessions:
  assumes "standardLoop n env a idx s = Some (r, a', s')"
  shows "EvCall t (NewSession c) \<in> set (drop (length (trace s)) (trace s')) \<Longrightarrow> \<not> ctxDone env t"
proof -
  have "list_all (cycleEvent env a) (drop (length (trace s)) (trace s'))"
    using standardLoop_events [OF assms] by (auto dest: extendsBy_drop)
  then show "EvCall t (NewSession c) \<in> set (drop (length (trace s)) (trace s')) \<Longrightarrow> \<not> ctxDone env t"
    by (auto simp: list_all_iff)
qed

lemma cadenceWait_not_cancel_error:
  "cadenceWait env a s = Inl res \<Longrightarrow> fst res \<noteq> Some ContextCanceled"
  by (auto simp: cadenceWait_def getSleepDuration_def goDiv_def
      split: sum.splits prod.splits woke.splits if_splits)

lemma standardLoop_never_cancel_error:
  assumes "standardLoop n env a idx s = Some res"
  shows "fst res \<noteq> Some ContextCanceled"
  using assms
proof (induct rule: standardLoop_rule)
  case (panicked n idx s p)
  then show ?case by (auto simp: getCommand_def split: if_splits)
next
  case (returned n idx s cmd c s1 s2 s3 res)
  then show ?case by (auto dest: cadenceWait_not_cancel_error)
qed simp_all

lemma standardLoop_cycle_cancelled:
  assumes top: "\<not> ctxDone env (now s)" "\<not> ttlReached a (now s)"
    and cmd: "getCommand a idx = Inr cmd"
    and con: "Connection a = Some h"
    and e1: "extcall env (NewSession h) s = (None, s1)"
    and e2: "extcall env RequestPty s1 = (None, s2)"
    and e3: "extcall env (Output cmd) s2 = (None, s3)"
    and e4: "extcall env SessionClose s3 = (x, s4)"
    and d: "getSleepDuration a = Inr d"
    and c: "cancelAt env = Some c" "c \<le> now s4 + max 0 (sint d)"
  shows "standardLoop (Suc (Suc n)) env a idx s
           = Some (None, a, snd (selectAfter env CadenceSleep d s4))"
    and "trace (snd (selectAfter env CadenceSleep d s4))
           = trace s @ [EvCall (now s) (NewSession h), EvCall (now s1) RequestPty,
                        EvCall (now s2) (Output cmd), EvCall (now s3) SessionClose,
                        EvWait (now s4) CadenceSleep d]"
proof -
  obtain w s' where sel: "selectAfter env CadenceSleep d s4 = (w, s')" by force
  have dn: "ctxDone env (now s')" using c sel by (rule selectAfter_cancelled)
  have s4: "snd (extcall env SessionClose s3) = s4" using e4 by simp
  have "(case cadenceWait env a s4 of Inl res \<Rightarrow> Some res
          | Inr s5 \<Rightarrow> standardLoop (Suc n) env a (idx + 1) s5) = Some (None, a, s')"
    using d sel dn by (cases w) (simp_all add: cadenceWait_def)
  then show "standardLoop (Suc (Suc n)) env a idx s
           = Some (None, a, snd (selectAfter env CadenceSleep d s4))"
    using top cmd con e1 e2 e3 s4 sel by simp
  show "trace (snd (selectAfter env CadenceSleep d s4))
           = trace s @ [EvCall (now s) (NewSession h), EvCall (now s1) RequestPty,
                        EvCall (now s2) (Output cmd), EvCall (now s3) SessionClose,
                        EvWait (now s4) CadenceSleep d]"
    using selectAfter_trace [OF sel] e1 e2 e3 e4 sel by (auto simp: extcall_eq)
qed

text \<open>
  Claim C5, for the standard loop. A cycle that starts with the context cancelled
  returns \<^verbatim>\<open>nil\<close> with nothing done. A cycle whose command succeeds and whose
  cadence wait is overtaken by the cancellation (the context is cancelled no later
  than the timer would fire) makes the loop return \<^verbatim>\<open>nil\<close>, in the \<^verbatim>\<open>select\<close>
  itself or, when the timer wins a tie, at the top of the next cycle; the wait is the
  last event of the run, so no further command is issued. And no run of the loop
  returns the cancellation as an error, and each cycle of a run (each new session)
  starts at an instant at which the context is not cancelled.
\<close>

theorem standardLoop_cancelled_returns_nil:
  "(ctxDone env (now s) \<longrightarrow> standardLoop (Suc n) env a idx s = Some (None, a, s)) \<and>
   (\<not> ctxDone env (now s) \<and> \<not> ttlReached a (now s) \<and> getCommand a idx = Inr cmd \<and>
    Connection a = Some h \<and> extcall env (NewSession h) s = (None, s1) \<and>
    extcall env RequestPty s1 = (None, s2) \<and> extcall env (Output cmd) s2 = (None, s3) \<and>
    extcall env SessionClose s3 = (x, s4) \<and> getSleepDuration a = Inr d \<and>
    cancelAt env = Some c \<and> c \<le> now s4 + max 0 (sint d) \<longrightarrow>
      standardLoop (Suc (Suc n)) env a idx s
        = Some (None, a, snd (selectAfter env CadenceSleep d s4)) \<and>
      trace (snd (selectAfter env CadenceSleep d s4))
        = trace s @ [EvCall (now s) (NewSession h), EvCall (now s1) RequestPty,
                     EvCall (now s2) (Output cmd), EvCall (now s3) SessionClose,
                     EvWait (now s4) CadenceSleep d]) \<and>
   (\<forall>r a' s'. standardLoop n env a idx s = Some (r, a', s') \<longrightarrow>
      r \<noteq> Some ContextCanceled \<and>
      (\<forall>t k. EvCall t (NewSession k) \<in> set (drop (length (trace s)) (trace s')) \<longrightarrow>
         \<not> ctxDone env t))"
proof (intro conjI impI allI)
  fix r a' s'
  assume run: "standardLoop n env a idx s = Some (r, a', s')"
  show "r \<noteq> Some ContextCanceled" using standardLoop_never_cancel_error [OF run] by simp
  fix t k
  assume "EvCall t (NewSession k) \<in> set (drop (length (trace s)) (trace s'))"
  then show "\<not> ctxDone env t" by (rule standardLoop_sessions [OF run])
qed (auto simp: standardLoop_top_cancelled standardLoop_cycle_cancelled simp del: standardLoop.simps)

theorem standardLoop_cancelled_returns_nil_witness:
  "standardLoop 1 interrupted connectedAgent 3 \<lparr>now = 5000000000, trace = []\<rparr>
     = Some (None, connectedAgent, \<lparr>now = 5000000000, trace = []\<rparr>) \<and>
   standardLoop 2 interrupted connectedAgent 0 start
     = Some (None, connectedAgent,
         \<lparr>now = 5000000000,
          trace = [EvCall 0 (NewSession 0), EvCall 7 RequestPty, EvCall 14 (Output ''ls''),
                   EvCall 21 SessionClose, EvWait 28 CadenceSleep 10000000000]\<rparr>) \<and>
   standardLoop 2 (accepting\<lparr>cancelAt := Some 10000000028\<rparr>) connectedAgent 0 start
     = Some (None, connectedAgent,
         \<lparr>now = 10000000028,
          trace = [EvCall 0 (NewSession 0), EvCall 7 RequestPty, EvCall 14 (Output ''ls''),
                   EvCall 21 SessionClose, EvWait 28 CadenceSleep 10000000000]\<rparr>) \<and>
   \<not> ctxDone interrupted 0"
proof -
  let ?late = "\<lparr>now = 5000000000, trace = []\<rparr>"
  let ?tied = "accepting\<lparr>cancelAt := Some 10000000028\<rparr>"
  let ?s1 = "\<lparr>now = 7, trace = [EvCall 0 (NewSession 0)]\<rparr>"
  let ?s2 = "\<lparr>now = 14, trace = [EvCall 0 (NewSession 0), EvCall 7 RequestPty]\<rparr>"
  let ?s3 = "\<lparr>now = 21, trace = [EvCall 0 (NewSession 0), EvCall 7 RequestPty,
                                  EvCall 14 (Output ''ls'')]\<rparr>"
  let ?s4 = "\<lparr>now = 28, trace = [EvCall 0 (NewSession 0), EvCall 7 RequestPty,
                                  EvCall 14 (Output ''ls''), EvCall 21 SessionClose]\<rparr>"
  have dn: "ctxDone interrupted (now ?late)" by (simp add: ctxDone_def interrupted_def)
  have top: "\<not> ctxDone interrupted (now start)" "\<not> ttlReached connectedAgent (now start)"
    "\<not> ctxDone ?tied (now start)"
    by code_simp+
  have cmd: "getCommand connectedAgent 0 = Inr ''ls''" by code_simp
  have con: "Connection connectedAgent = Some 0" by (simp add: connectedAgent_def)
  have e: "extcall interrupted (NewSession 0) start = (None, ?s1)"
    "extcall interrupted RequestPty ?s1 = (None, ?s2)"
    "extcall interrupted (Output ''ls'') ?s2 = (None, ?s3)"
    "extcall interrupted SessionClose ?s3 = (None, ?s4)"
    by (simp_all add: extcall_def interrupted_def accepting_def start_def)
  have e': "extcall ?tied (NewSession 0) start = (None, ?s1)"
    "extcall ?tied RequestPty ?s1 = (None, ?s2)"
    "extcall ?tied (Output ''ls'') ?s2 = (None, ?s3)"
    "extcall ?tied SessionClose ?s3 = (None, ?s4)"
    by (simp_all add: extcall_def accepting_def start_def)
  have d: "getSleepDuration connectedAgent = Inr 10000000000" by code_simp
  have c: "cancelAt interrupted = Some 5000000000" "cancelAt ?tied = Some 10000000028"
    by (simp_all add: interrupted_def)
  have le: "5000000000 \<le> now ?s4 + max 0 (sint (10000000000 :: duration))"
    "10000000028 \<le> now ?s4 + max 0 (sint (10000000000 :: duration))"
    by simp_all
  have w: "snd (selectAfter interrupted CadenceSleep 10000000000 ?s4)
      = \<lparr>now = 5000000000,
          trace = [EvCall 0 (NewSession 0), EvCall 7 RequestPty, EvCall 14 (Output ''ls''),
                   EvCall 21 SessionClose, EvWait 28 CadenceSleep 10000000000]\<rparr>"
    by (simp add: selectAfter_def interrupted_def accepting_def)
  have w': "snd (selectAfter ?tied CadenceSleep 10000000000 ?s4)
      = \<lparr>now = 10000000028,
          trace = [EvCall 0 (NewSession 0), EvCall 7 RequestPty, EvCall 14 (Output ''ls''),
                   EvCall 21 SessionClose, EvWait 28 CadenceSleep 10000000000]\<rparr>"
    by (simp add: selectAfter_def accepting_def)
  note t1 = standardLoop_cancelled_returns_nil [of interrupted ?late 0 connectedAgent 3]
  note t2 = standardLoop_cancelled_returns_nil
    [of interrupted start 0 connectedAgent 0 "''ls''" 0 ?s1 ?s2 ?s3 None ?s4 10000000000 5000000000]
  note t3 = standardLoop_cancelled_returns_nil
    [of ?tied start 0 connectedAgent 0 "''ls''" 0 ?s1 ?s2 ?s3 None ?s4 10000000000 10000000028]
  have 1: "standardLoop 1 interrupted connectedAgent 3 ?late = Some (None, connectedAgent, ?late)"
    using t1 [THEN conjunct1] dn by simp
  have 2: "standardLoop 2 interrupted connectedAgent 0 start
      = Some (None, connectedAgent, snd (selectAfter interrupted CadenceSleep 10000000000 ?s4))"
    using t2 [THEN conjunct2, THEN conjunct1] top cmd con e d c le
    by (simp del: standardLoop.simps add: numeral_2_eq_2)
  have 3: "standardLoop 2 ?tied connectedAgent 0 start
      = Some (None, connectedAgent, snd (selectAfter ?tied CadenceSleep 10000000000 ?s4))"
    using t3 [THEN conjunct2, THEN conjunct1] top cmd con e' d c le
    by (simp del: standardLoop.simps add: numeral_2_eq_2)
  have ev: "EvCall 0 (NewSession 0) \<in> set (drop (length (trace start))
      (trace (snd (selectAfter interrupted CadenceSleep 10000000000 ?s4))))"
    by (simp add: w start_def)
  note t4 = standardLoop_cancelled_returns_nil [of interrupted start 2 connectedAgent 0]
  have 4: "\<not> ctxDone interrupted 0"
    using t4 [THEN conjunct2, THEN conjunct2, rule_format, OF 2, THEN conjunct2, rule_format, OF ev] .
  from 1 2 3 4 show ?thesis by (simp only: w w' simp_thms)
qed

subsection \<open>The wait between two cycles\<close>

lemma sixty_div_bounds:
  "0 < (r::int) \<Longrightarrow> 0 \<le> 60 div r \<and> 60 div r \<le> 60"
  using zdiv_mono2 [of 60 1 r] by (simp add: pos_imp_zdiv_nonneg_iff)

lemma getSleepDuration_pos:
  assumes "0 < sint (CommandRate a)"
  shows "getSleepDuration a = Inr (word_of_int (60 div sint (CommandRate a)) * Second)"
    and "sint (word_of_int (60 div sint (CommandRate a)) * Second :: duration) = (60 div sint (CommandRate a)) * 1000000000"
proof -
  from assms have nz: "CommandRate a \<noteq> 0" by auto
  show "getSleepDuration a = Inr (word_of_int (60 div sint (CommandRate a)) * Second)"
    using assms nz by (simp add: getSleepDuration_def goDiv_def signed_divide_int_def)
  have b: "0 \<le> 60 div sint (CommandRate a)" "60 div sint (CommandRate a) \<le> 60"
    using sixty_div_bounds [OF assms] by simp_all
  have "word_of_int (60 div sint (CommandRate a)) * Second = (word_of_int ((60 div sint (CommandRate a)) * 1000000000) :: duration)"
    by (simp add: Second_def)
  moreover have "sint (word_of_int ((60 div sint (CommandRate a)) * 1000000000) :: duration) = (60 div sint (CommandRate a)) * 1000000000"
    using b by (intro sint_word_of_int_small) simp_all
  ultimately show "sint (word_of_int (60 div sint (CommandRate a)) * Second :: duration) = (60 div sint (CommandRate a)) * 1000000000"
    by simp
qed

text \<open>
  What the code computes, and that every cadence wait of a run, in either mode, lasts
  what \<^verbatim>\<open>getSleepDuration\<close> returns.
\<close>

lemma RunProgram_cadence_waits:
  "0 < sint (CommandRate a) \<Longrightarrow>
     getSleepDuration a = Inr (word_of_int (60 div sint (CommandRate a)) * Second) \<and>
     sint (word_of_int (60 div sint (CommandRate a)) * Second :: duration)
       = (60 div sint (CommandRate a)) * 1000000000 \<and>
     (\<forall>n env s r a' s' t d. RunProgram n env a s = Some (r, a', s') \<longrightarrow>
        EvWait t CadenceSleep d \<in> set (drop (length (trace s)) (trace s')) \<longrightarrow>
        d = word_of_int (60 div sint (CommandRate a)) * Second)"
proof (intro conjI allI impI)
  fix n env s r a' s' t d
  assume pos: "0 < sint (CommandRate a)"
    and run: "RunProgram n env a s = Some (r, a', s')"
    and ev: "EvWait t CadenceSleep d \<in> set (drop (length (trace s)) (trace s'))"
  have "list_all (cadenceEvent a) (drop (length (trace s)) (trace s'))"
    using RunProgram_events [OF run] by (rule extendsBy_drop)
  with ev have "cadenceEvent a (EvWait t CadenceSleep d)" by (auto simp: list_all_iff)
  then show "d = word_of_int (60 div sint (CommandRate a)) * Second"
    using getSleepDuration_pos(1) [OF pos] by simp
qed (simp_all add: getSleepDuration_pos)

lemma RunProgram_interrupted:
  "RunProgram 2 interrupted connectedAgent start =
     Some (None, connectedAgent,
       \<lparr>now = 5000000000,
        trace = [EvCall 0 (NewSession 0), EvCall 7 RequestPty, EvCall 14 (Output ''ls''),
                 EvCall 21 SessionClose, EvWait 28 CadenceSleep 10000000000]\<rparr>)"
  by code_simp

lemma RunProgram_tty_interrupted:
  "RunProgram 2 interrupted (connectedAgent\<lparr>UseTTY := True, CommandRate := 7\<rparr>)
       \<lparr>now = 10, trace = []\<rparr> =
     Some (Some ContextCanceled, connectedAgent\<lparr>UseTTY := True, CommandRate := 7\<rparr>,
       \<lparr>now = 5000000007,
        trace = [EvCall 10 (NewSession 0), EvCall 17 RequestPty, EvCall 24 StdinPipe,
                 EvCall 31 StdoutPipe, EvCall 38 StderrPipe, EvCall 45 Shell,
                 EvWait 52 ShellWarmup 10000000000, EvCall 5000000000 SessionClose]\<rparr>)"
  by code_simp

text \<open>
  Claim C6 says that with a cadence above 0 the wait between two cycles is
  \<open>60 / cadence\<close> seconds, in both modes; the flag is documented as
  \<^verbatim>\<open>Commands per minute\<close>. \<^verbatim>\<open>time.Duration(60/a.CommandRate) * time.Second\<close>
  divides integers before it scales to nanoseconds: at cadence 7 the wait is 8 seconds,
  not 60/7, and at cadence 61 it is 0 where the claim gives 60/61 of a second. The two
  runs are at cadence 61, one in each mode: each next command starts at the very
  instant at which the wait before it began.
\<close>

theorem cadence_wait_loses_the_fraction:
  "getSleepDuration (exampleAgent\<lparr>CommandRate := 7\<rparr>) = Inr 8000000000 \<and>
   real_of_int (sint (8000000000 :: duration)) / 1000000000 \<noteq> 60 / 7 \<and>
   getSleepDuration (exampleAgent\<lparr>CommandRate := 61\<rparr>) = Inr 0 \<and>
   real_of_int (sint (0 :: duration)) / 1000000000 \<noteq> 60 / 61 \<and>
   RunProgram 3 (accepting\<lparr>cancelAt := Some 40\<rparr>) (connectedAgent\<lparr>CommandRate := 61\<rparr>) start
     = Some (None, connectedAgent\<lparr>CommandRate := 61\<rparr>,
         \<lparr>now = 56,
          trace = [EvCall 0 (NewSession 0), EvCall 7 RequestPty, EvCall 14 (Output ''ls''),
                   EvCall 21 SessionClose, EvWait 28 CadenceSleep 0,
                   EvCall 28 (NewSession 0), EvCall 35 RequestPty, EvCall 42 (Output ''pwd''),
                   EvCall 49 SessionClose, EvWait 56 CadenceSleep 0]\<rparr>) \<and>
   RunProgram 4 (accepting\<lparr>cancelAt := Some 10000000060\<rparr>)
       (connectedAgent\<lparr>UseTTY := True, CommandRate := 61\<rparr>) start
     = Some (None, connectedAgent\<lparr>UseTTY := True, CommandRate := 61\<rparr>,
         \<lparr>now = 10000000070,
          trace = [EvCall 0 (NewSession 0), EvCall 7 RequestPty, EvCall 14 StdinPipe,
                   EvCall 21 StdoutPipe, EvCall 28 StderrPipe, EvCall 35 Shell,
                   EvWait 42 ShellWarmup 10000000000,
                   EvCall 10000000042 (StdinWrite (''ls'' @ [CHR 0x0D])),
                   EvWait 10000000049 CadenceSleep 0,
                   EvCall 10000000049 (StdinWrite (''pwd'' @ [CHR 0x0D])),
                   EvWait 10000000056 CadenceSleep 0,
                   EvCall 10000000056 (StdinWrite [CHR 0x0D]),
                   EvWait 10000000063 CadenceSleep 0,
                   EvCall 10000000063 SessionClose]\<rparr>)"
proof -
  have "getSleepDuration (exampleAgent\<lparr>CommandRate := 7\<rparr>) = Inr 8000000000"
    "getSleepDuration (exampleAgent\<lparr>CommandRate := 61\<rparr>) = Inr 0"
    by (simp_all add: getSleepDuration_def goDiv_def exampleAgent_def Second_def
        signed_divide_int_def)
  moreover have "real_of_int (sint (8000000000 :: duration)) / 1000000000 \<noteq> 60 / 7"
    "real_of_int (sint (0 :: duration)) / 1000000000 \<noteq> 60 / 61"
    by simp_all
  moreover have "RunProgram 3 (accepting\<lparr>cancelAt := Some 40\<rparr>)
       (connectedAgent\<lparr>CommandRate := 61\<rparr>) start
     = Some (None, connectedAgent\<lparr>CommandRate := 61\<rparr>,
         \<lparr>now = 56,
          trace = [EvCall 0 (NewSession 0), EvCall 7 RequestPty, EvCall 14 (Output ''ls''),
                   EvCall 21 SessionClose, EvWait 28 CadenceSleep 0,
                   EvCall 28 (NewSession 0), EvCall 35 RequestPty, EvCall 42 (Output ''pwd''),
                   EvCall 49 SessionClose, EvWait 56 CadenceSleep 0]\<rparr>)"
    by code_simp
  moreover have "RunProgram 4 (accepting\<lparr>cancelAt := Some 10000000060\<rparr>)
       (connectedAgent\<lparr>UseTTY := True, CommandRate := 61\<rparr>) start
     = Some (None, connectedAgent\<lparr>UseTTY := True, CommandRate := 61\<rparr>,
         \<lparr>now = 10000000070,
          trace = [EvCall 0 (NewSession 0), EvCall 7 RequestPty, EvCall 14 StdinPipe,
                   EvCall 21 StdoutPipe, EvCall 28 StderrPipe, EvCall 35 Shell,
                   EvWait 42 ShellWarmup 10000000000,
                   EvCall 10000000042 (StdinWrite (''ls'' @ [CHR 0x0D])),
                   EvWait 10000000049 CadenceSleep 0,
                   EvCall 10000000049 (StdinWrite (''pwd'' @ [CHR 0x0D])),
                   EvWait 10000000056 CadenceSleep 0,
                   EvCall 10000000056 (StdinWrite [CHR 0x0D]),
                   EvWait 10000000063 CadenceSleep 0,
                   EvCall 10000000063 SessionClose]\<rparr>)"
    by code_simp
  ultimately show ?thesis by (simp only: simp_thms)
qed

subsection \<open>The script index stays in bounds\<close>

lemma cadenceWait_no_index_panic:
  "cadenceWait env a s = Inl res \<Longrightarrow> fst res \<noteq> Some (Panic IndexOutOfRange)"
  by (auto simp: cadenceWait_def getSleepDuration_def goDiv_def
      split: sum.splits prod.splits woke.splits if_splits)

lemma standardLoop_index_fuel:
  assumes "standardLoop n env a idx s = Some res"
  shows "0 \<le> sint idx \<Longrightarrow> sint idx + int n \<le> 2 ^ 63 \<Longrightarrow> fst res \<noteq> Some (Panic IndexOutOfRange)"
  using assms
proof (induct rule: standardLoop_rule)
  case (panicked n idx s p)
  then show ?case using getCommand_nonneg [of idx a] by auto
next
  case (returned n idx s cmd c s1 s2 s3 res)
  then show ?case by (auto dest: cadenceWait_no_index_panic)
next
  case (continued n idx s cmd c s1 s2 s3 s4 res)
  from continued(9) have "n \<noteq> 0" by (cases n) auto
  with continued(12) have "sint idx < 9223372036854775807" by simp
  then have "sint (idx + 1) = sint idx + 1" by (rule sint_succ)
  with continued show ?case by simp
qed simp_all

lemma ttyLoop_index_fuel:
  assumes "ttyLoop n env a idx s = Some res"
  shows "0 \<le> sint idx \<Longrightarrow> sint idx + int n \<le> 2 ^ 63 \<Longrightarrow> fst res \<noteq> Some (Panic IndexOutOfRange)"
  using assms
proof (induct rule: ttyLoop_rule)
  case (panicked n idx s p)
  then show ?case using getCommand_nonneg [of idx a] by auto
next
  case (returned n idx s cmd s1 res)
  then show ?case by (auto dest: cadenceWait_no_index_panic)
next
  case (continued n idx s cmd s1 s2 res)
  from continued(6) have "n \<noteq> 0" by (cases n) auto
  with continued(9) have "sint idx < 9223372036854775807" by simp
  then have "sint (idx + 1) = sint idx + 1" by (rule sint_succ)
  with continued show ?case by simp
qed simp_all

lemma ttl_bound: "\<not> ttlReached a t \<Longrightarrow> t - ConnectionStart a < 2 ^ 63"
  using sint_lt [of "ConnectionTTL a * Second"] by (simp add: ttlReached_def)

lemma index_in_time:
  fixes idx :: int64
  assumes "\<not> ttlReached a t" "ConnectionStart a + int (unat idx) \<le> t"
  shows "0 \<le> sint idx"
proof -
  have "int (unat idx) < 2 ^ 63" using ttl_bound [OF assms(1)] assms(2) by simp
  then have "sint idx = int (unat idx)" by (rule sint_eq_unat)
  then show ?thesis by simp
qed

lemma standardLoop_index_time:
  assumes slow: "\<forall>k c. 1 \<le> fst (outcome env k c)"
    and run: "standardLoop n env a idx s = Some res"
  shows "ConnectionStart a + int (unat idx) \<le> now s \<Longrightarrow> fst res \<noteq> Some (Panic IndexOutOfRange)"
  using run
proof (induct rule: standardLoop_rule)
  case (panicked n idx s p)
  then have "0 \<le> sint idx" by (intro index_in_time [of a "now s"])
  then show ?case using panicked getCommand_nonneg [of idx a] by auto
next
  case (returned n idx s cmd c s1 s2 s3 res)
  then show ?case by (auto dest: cadenceWait_no_index_panic)
next
  case (continued n idx s cmd c s1 s2 s3 s4 res)
  let ?T = "extendsBy (\<lambda>e. True)"
  have "now s + 1 \<le> now s1" using slow continued(5) by (rule extcall_takes_time)
  moreover have "?T s1 s2" using continued(6) by (rule extendsBy_extcall) simp
  moreover have "?T s2 s3" using continued(7) by (rule extendsBy_extcall) simp
  moreover have "?T s3 (snd (extcall env SessionClose s3))" by (rule extendsBy_snd_extcall) simp
  moreover have "?T (snd (extcall env SessionClose s3)) s4"
    using continued(8) by (rule extendsBy_cadenceWait_Inr) simp
  ultimately have "now s + 1 \<le> now s4" by (auto dest!: extendsBy_now)
  with continued(11) unat_succ_le [of idx]
  have "ConnectionStart a + int (unat (idx + 1)) \<le> now s4" by simp
  then show ?case by (rule continued(10))
qed simp_all

lemma ttyLoop_index_time:
  assumes slow: "\<forall>k c. 1 \<le> fst (outcome env k c)"
    and run: "ttyLoop n env a idx s = Some res"
  shows "ConnectionStart a + int (unat idx) \<le> now s \<Longrightarrow> fst res \<noteq> Some (Panic IndexOutOfRange)"
  using run
proof (induct rule: ttyLoop_rule)
  case (panicked n idx s p)
  then have "0 \<le> sint idx" by (intro index_in_time [of a "now s"])
  then show ?case using panicked getCommand_nonneg [of idx a] by auto
next
  case (returned n idx s cmd s1 res)
  then show ?case by (auto dest: cadenceWait_no_index_panic)
next
  case (continued n idx s cmd s1 s2 res)
  let ?T = "extendsBy (\<lambda>e. True)"
  have "now s + 1 \<le> now s1" using slow continued(4) by (rule extcall_takes_time)
  moreover have "?T s1 s2" using continued(5) by (rule extendsBy_cadenceWait_Inr) simp
  ultimately have "now s + 1 \<le> now s2" by (auto dest!: extendsBy_now)
  with continued(8) unat_succ_le [of idx]
  have "ConnectionStart a + int (unat (idx + 1)) \<le> now s2" by simp
  then show ?case by (rule continued(7))
qed simp_all

lemma RunProgram_index:
  assumes run: "RunProgram n env a s = Some (r, a', s')"
    and ok: "int n \<le> 2 ^ 63 \<or> (\<forall>k c. 1 \<le> fst (outcome env k c)) \<and> ConnectionStart a \<le> now s"
  shows "r \<noteq> Some (Panic IndexOutOfRange)"
proof (cases "UseTTY a")
  case False
  then have std: "RunStandardProgram n env a s = Some (r, a', s')" using run by (simp add: RunProgram_def)
  show ?thesis
  proof (cases "Connection a")
    case None
    then show ?thesis using std by (auto simp: RunStandardProgram_def)
  next
    case (Some c)
    then have loop: "standardLoop n env a 0 s = Some (r, a', s')"
      using std by (simp add: RunStandardProgram_def)
    from ok show ?thesis
    proof
      assume "int n \<le> 2 ^ 63"
      then show ?thesis using standardLoop_index_fuel [OF loop] by simp
    next
      assume "(\<forall>k c. 1 \<le> fst (outcome env k c)) \<and> ConnectionStart a \<le> now s"
      then show ?thesis using standardLoop_index_time [OF _ loop] by simp
    qed
  qed
next
  case True
  then have tty: "RunTTYProgram n env a s = Some (r, a', s')" using run by (simp add: RunProgram_def)
  show ?thesis
  proof (cases "Connection a")
    case None
    then show ?thesis using tty by (auto simp: RunTTYProgram_def)
  next
    case (Some c)
    obtain r1 s1 where ec: "extcall env (NewSession c) s = (r1, s1)" by force
    show ?thesis
    proof (cases r1)
      case (Some msg)
      then show ?thesis using tty \<open>Connection a = Some c\<close> ec by (auto simp: RunTTYProgram_def)
    next
      case None
      then obtain s2 where ses: "ttySession n env a s1 = Some (r, a', s2)"
        using tty \<open>Connection a = Some c\<close> ec
        by (auto simp: RunTTYProgram_def split: option.splits)
      have t1: "now s \<le> now s1" using extendsBy_extcall [OF ec, of "\<lambda>e. True"] by (simp add: extendsBy_def)
      show ?thesis
      proof (cases "ttySetup env a [RequestPty, StdinPipe, StdoutPipe, StderrPipe, Shell] s1")
        case (Inl x)
        obtain e a1 s3 where x: "x = (e, a1, s3)" by (cases x)
        obtain msg where "e = SshError msg" using ttySetup_error [OF Inl [unfolded x]] by blast
        moreover have "r = Some e" using ses unfolding ttySession_def Inl x by simp
        ultimately show ?thesis by simp
      next
        case (Inr s3)
        have t2: "now s1 \<le> now s3" using ttySetup_Inr [OF Inr, of "\<lambda>e. True"] by (simp add: extendsBy_def)
        obtain w s4 where sel: "selectAfter env ShellWarmup (10 * Second) s3 = (w, s4)" by force
        have t3: "now s3 \<le> now s4" using sel by (rule selectAfter_now)
        show ?thesis
        proof (cases w)
          case CtxDone
          then have "r = Some ContextCanceled" using ses sel unfolding ttySession_def Inr by simp
          then show ?thesis by simp
        next
          case TimerFired
          then have loop: "ttyLoop n env a 0 s4 = Some (r, a', s2)"
            using ses sel unfolding ttySession_def Inr by simp
          from ok show ?thesis
          proof
            assume "int n \<le> 2 ^ 63"
            then show ?thesis using ttyLoop_index_fuel [OF loop] by simp
          next
            assume "(\<forall>k c. 1 \<le> fst (outcome env k c)) \<and> ConnectionStart a \<le> now s"
            then show ?thesis using ttyLoop_index_time [OF _ loop] t1 t2 t3 by simp
          qed
        qed
      qed
    qed
  qed
qed

text \<open>
  Claim C10. \<^verbatim>\<open>getCommand\<close> checks only \<^verbatim>\<open>idx >= len(a.CommandScript)\<close>: with a
  script, an index that is not negative is answered without a panic, and a negative one
  is not. Both loops start at index 0 and add 1 each cycle, so no run panics on the
  index: not within \<open>2 ^ 63\<close> cycles, the first at which \<^verbatim>\<open>idx++\<close> would wrap,
  and never at all when every call to the server takes at least a nanosecond and the
  connection was made before the loop starts, since the time to live (at most
  \<open>2 ^ 63 - 1\<close> nanoseconds) then ends the run first.
\<close>

theorem script_index_in_bounds:
  "(0 < length (CommandScript a) \<and> 0 \<le> sint idx \<longrightarrow> (\<exists>c. getCommand a idx = Inr c)) \<and>
   (0 < length (CommandScript a) \<and> sint idx < 0 \<longrightarrow> getCommand a idx = Inl (Panic IndexOutOfRange)) \<and>
   (RunProgram n env a s = Some (r, a', s') \<and>
      (int n \<le> 2 ^ 63 \<or> (\<forall>k c. 1 \<le> fst (outcome env k c)) \<and> ConnectionStart a \<le> now s) \<longrightarrow>
      r \<noteq> Some (Panic IndexOutOfRange))"
  using RunProgram_index [of n env a s r a' s']
  by (auto simp: getCommand_nonneg getCommand_negative)

theorem script_index_in_bounds_witness:
  "(\<exists>c. getCommand connectedAgent 1 = Inr c) \<and>
   getCommand connectedAgent (- 1) = Inl (Panic IndexOutOfRange) \<and>
   fst (the (RunProgram 2 interrupted connectedAgent start)) \<noteq> Some (Panic IndexOutOfRange) \<and>
   fst (the (RunProgram 2 interrupted (connectedAgent\<lparr>UseTTY := True, CommandRate := 7\<rparr>)
               \<lparr>now = 10, trace = []\<rparr>)) \<noteq> Some (Panic IndexOutOfRange)"
proof -
  let ?T = "connectedAgent\<lparr>UseTTY := True, CommandRate := 7\<rparr>"
  have len: "0 < length (CommandScript connectedAgent)"
    by (simp add: connectedAgent_def exampleAgent_def)
  have slow: "\<forall>k c. 1 \<le> fst (outcome interrupted k c)"
    by (simp add: interrupted_def accepting_def)
  have st: "ConnectionStart ?T \<le> now \<lparr>now = 10, trace = []\<rparr>"
    by (simp add: connectedAgent_def exampleAgent_def)
  have 1: "\<exists>c. getCommand connectedAgent 1 = Inr c"
    using script_index_in_bounds [of connectedAgent 1] len by simp
  have 2: "getCommand connectedAgent (- 1) = Inl (Panic IndexOutOfRange)"
    using script_index_in_bounds [of connectedAgent "- 1"] len by simp
  have 3: "None \<noteq> Some (Panic IndexOutOfRange)"
    using script_index_in_bounds [of connectedAgent 0 2 interrupted start None connectedAgent]
      RunProgram_interrupted by simp
  have 4: "Some ContextCanceled \<noteq> Some (Panic IndexOutOfRange)"
    using script_index_in_bounds [of ?T 0 2 interrupted "\<lparr>now = 10, trace = []\<rparr>"
        "Some ContextCanceled" ?T] RunProgram_tty_interrupted slow st
    by simp
  from 1 2 3 4 show ?thesis by (simp add: RunProgram_interrupted RunProgram_tty_interrupted)
qed

end
